theory Spec2Isabelle
  imports Main
begin

section \<open>The HTML renderer of commonmark.js (lib/html.js)\<close>

text \<open>
  A shallow embedding of \<^verbatim>\<open>lib/html.js\<close>. A JavaScript string is a sequence of
  code units; the model's \<^typ>\<open>string\<close> holds the strings whose code units are below 256
  (ASCII and Latin-1), and \<^verbatim>\<open>toLowerCase\<close>, the class \<^verbatim>\<open>\s\<close> and the flag
  \<^verbatim>\<open>i\<close> are written out for them. The renderer object \<^verbatim>\<open>this\<close> is a record that
  every method takes and returns; a thrown exception is the left summand of a result.
\<close>

subsection \<open>Strings and regular expressions\<close>

text \<open>
  \<^verbatim>\<open>toLowerCase\<close> on one code unit below 256: the letters \<^verbatim>\<open>A\<close> to \<^verbatim>\<open>Z\<close> and
  the Latin-1 capitals \<open>0xC0\<close> to \<open>0xDE\<close> (without the multiplication sign \<open>0xD7\<close>) go to
  the code unit 32 above; every other one stays.
\<close>

definition upperCaseLetters :: "char list" where
  "upperCaseLetters =
     ''ABCDEFGHIJKLMNOPQRSTUVWXYZ'' @
     [CHR 0xC0, CHR 0xC1, CHR 0xC2, CHR 0xC3, CHR 0xC4, CHR 0xC5, CHR 0xC6, CHR 0xC7,
      CHR 0xC8, CHR 0xC9, CHR 0xCA, CHR 0xCB, CHR 0xCC, CHR 0xCD, CHR 0xCE, CHR 0xCF,
      CHR 0xD0, CHR 0xD1, CHR 0xD2, CHR 0xD3, CHR 0xD4, CHR 0xD5, CHR 0xD6,
      CHR 0xD8, CHR 0xD9, CHR 0xDA, CHR 0xDB, CHR 0xDC, CHR 0xDD, CHR 0xDE]"

definition lowerCaseLetters :: "char list" where
  "lowerCaseLetters =
     ''abcdefghijklmnopqrstuvwxyz'' @
     [CHR 0xE0, CHR 0xE1, CHR 0xE2, CHR 0xE3, CHR 0xE4, CHR 0xE5, CHR 0xE6, CHR 0xE7,
      CHR 0xE8, CHR 0xE9, CHR 0xEA, CHR 0xEB, CHR 0xEC, CHR 0xED, CHR 0xEE, CHR 0xEF,
      CHR 0xF0, CHR 0xF1, CHR 0xF2, CHR 0xF3, CHR 0xF4, CHR 0xF5, CHR 0xF6,
      CHR 0xF8, CHR 0xF9, CHR 0xFA, CHR 0xFB, CHR 0xFC, CHR 0xFD, CHR 0xFE]"

definition toLowerChar :: "char \<Rightarrow> char" where
  "toLowerChar c =
     (case map_of (zip upperCaseLetters lowerCaseLetters) c of None \<Rightarrow> c | Some d \<Rightarrow> d)"

definition toLowerCase :: "string \<Rightarrow> string" where
  "toLowerCase s = map toLowerChar s"

text \<open>\<^verbatim>\<open>startsWith p s\<close>: the pattern \<^verbatim>\<open>^p\<close> matches \<open>s\<close>.\<close>

fun startsWith :: "string \<Rightarrow> string \<Rightarrow> bool" where
  "startsWith [] s = True"
| "startsWith (p # ps) [] = False"
| "startsWith (p # ps) (c # cs) = (p = c \<and> startsWith ps cs)"

text \<open>\<^verbatim>\<open>occursIn p s\<close>: the unanchored pattern \<^verbatim>\<open>p\<close> matches somewhere in \<open>s\<close>.\<close>

fun occursIn :: "string \<Rightarrow> string \<Rightarrow> bool" where
  "occursIn p [] = startsWith p []"
| "occursIn p (c # cs) = (startsWith p (c # cs) \<or> occursIn p cs)"

text \<open>
  \<^verbatim>\<open>var reUnsafeProtocol = /^javascript:|vbscript:|file:|data:/i;\<close>
  Alternation binds weaker than the anchor: \<^verbatim>\<open>^\<close> belongs to the first alternative
  only, the other three match at any position. The patterns hold ASCII letters only, and
  under the flag \<^verbatim>\<open>i\<close> a code unit above 127 never matches an ASCII letter, so the flag
  is modelled by lowering the subject.
\<close>

definition reUnsafeProtocol_test :: "string \<Rightarrow> bool" where
  "reUnsafeProtocol_test url =
     (let u = toLowerCase url in
        startsWith ''javascript:'' u \<or> occursIn ''vbscript:'' u \<or>
        occursIn ''file:'' u \<or> occursIn ''data:'' u)"

text \<open>\<^verbatim>\<open>var reSafeDataProtocol = /^data:image\/(?:png|gif|jpeg|webp)/i;\<close>\<close>

definition reSafeDataProtocol_test :: "string \<Rightarrow> bool" where
  "reSafeDataProtocol_test url =
     (let u = toLowerCase url in
        startsWith ''data:image/png'' u \<or> startsWith ''data:image/gif'' u \<or>
        startsWith ''data:image/jpeg'' u \<or> startsWith ''data:image/webp'' u)"

definition potentiallyUnsafe :: "string \<Rightarrow> bool" where
  "potentiallyUnsafe url = (reUnsafeProtocol_test url \<and> \<not> reSafeDataProtocol_test url)"

text \<open>
  \<^verbatim>\<open>var reHtmlTag\<close> is the pattern: a \<^verbatim>\<open><\<close>, then \<^verbatim>\<open>[^>]*\<close>, then a \<^verbatim>\<open>>\<close>
  (the source escapes both angle brackets with a backslash), without flags.
  The leftmost match starts at the first \<^verbatim>\<open><\<close> of the subject and ends at the first
  \<^verbatim>\<open>>\<close> after it; when no \<^verbatim>\<open>>\<close> follows the first \<^verbatim>\<open><\<close> nothing matches (a
  later \<^verbatim>\<open><\<close> has no \<^verbatim>\<open>>\<close> after it either). \<open>reHtmlTag_exec\<close> returns the text
  before and the text after the leftmost match.
\<close>

definition reHtmlTag_exec :: "string \<Rightarrow> (string \<times> string) option" where
  "reHtmlTag_exec s =
     (case dropWhile (\<lambda>c. c \<noteq> CHR ''<'') s of
        [] \<Rightarrow> None
      | lt # inner \<Rightarrow>
          (case dropWhile (\<lambda>c. c \<noteq> CHR ''>'') inner of
             [] \<Rightarrow> None
           | gt # after \<Rightarrow> Some (takeWhile (\<lambda>c. c \<noteq> CHR ''<'') s, after)))"

text \<open>\<^verbatim>\<open>s.replace(reHtmlTag, '')\<close>: the regular expression has no \<^verbatim>\<open>g\<close> flag, so
  only the leftmost match is replaced.\<close>

definition replace_reHtmlTag :: "string \<Rightarrow> string" where
  "replace_reHtmlTag s =
     (case reHtmlTag_exec s of None \<Rightarrow> s | Some (before, after) \<Rightarrow> before @ after)"

text \<open>
  \<^verbatim>\<open>String(n)\<close> and \<^verbatim>\<open>n.toString()\<close> for a number that is an integer (line and
  column numbers, heading levels, list starts). A Number holds an integer of at most 53
  significant bits; \<open>toNumber\<close> is the Number nearest to an integer (ties go to the even
  significand), which is what the model's integer stands for.
\<close>

fun decimal :: "nat \<Rightarrow> string" where
  "decimal n =
     (if n < 10 then [''0123456789'' ! n]
      else decimal (n div 10) @ [''0123456789'' ! (n mod 10)])"

declare decimal.simps [simp del]

fun bitlen :: "nat \<Rightarrow> nat" where
  "bitlen n = (if n = 0 then 0 else Suc (bitlen (n div 2)))"

declare bitlen.simps [simp del]

definition toNumber :: "nat \<Rightarrow> nat" where
  "toNumber n =
     (if bitlen n \<le> 53 then n
      else (let q = bitlen n - 53; m = n div 2 ^ q; r = n mod 2 ^ q in
              if 2 * r > 2 ^ q \<or> (2 * r = 2 ^ q \<and> odd m) then (m + 1) * 2 ^ q
              else m * 2 ^ q))"

text \<open>
  \<^verbatim>\<open>Number.prototype.toString\<close> writes the digits of the shortest decimal \<open>v\<close> that
  still reads back as the Number \<open>x\<close> (the nearest one, if several are as short; the
  even one of two equally near), as a plain numeral when it has at most 21 digits and
  in exponent notation beyond, and \<^verbatim>\<open>Infinity\<close> from \<open>2\<^sup>1\<^sup>0\<^sup>2\<^sup>4\<close> on. A Number of at
  most 53 bits is its own shortest decimal. \<open>roundsTo x v\<close>: the integer \<open>v\<close> lies in
  the rounding interval of the Number \<open>x\<close> of more than 53 bits; \<open>candidate x k\<close>: the
  decimal with \<open>k\<close> digits before its zeros that rounds to \<open>x\<close>, if there is one.
\<close>

definition roundsTo :: "nat \<Rightarrow> nat \<Rightarrow> bool" where
  "roundsTo x v =
     (let q = bitlen x - 53; m = x div 2 ^ q;
          below = (if m = 2 ^ 52 then 2 ^ (q - 1) else 2 ^ q);
          above = 2 ^ q
      in if even m then 2 * x \<le> 2 * v + below \<and> 2 * v \<le> 2 * x + above
         else 2 * x < 2 * v + below \<and> 2 * v < 2 * x + above)"

definition candidate :: "nat \<Rightarrow> nat \<Rightarrow> nat option" where
  "candidate x k =
     (let p = length (decimal x) - k;
          v0 = (x div 10 ^ p) * 10 ^ p; v1 = v0 + 10 ^ p;
          ok0 = roundsTo x v0; ok1 = roundsTo x v1
      in if ok0 \<and> ok1 then
           (if x - v0 < v1 - x then Some v0
            else if v1 - x < x - v0 then Some v1
            else if even (x div 10 ^ p) then Some v0 else Some v1)
         else if ok0 then Some v0 else if ok1 then Some v1 else None)"

fun shortest_from :: "nat \<Rightarrow> nat \<Rightarrow> nat \<Rightarrow> nat" where
  "shortest_from x k 0 = x"
| "shortest_from x k (Suc more) =
     (case candidate x k of Some v \<Rightarrow> v | None \<Rightarrow> shortest_from x (Suc k) more)"

definition shortest :: "nat \<Rightarrow> nat" where
  "shortest x =
     (if bitlen x \<le> 53 then x else shortest_from x 1 (length (decimal x) - 1))"

definition strip_zeros :: "string \<Rightarrow> string" where
  "strip_zeros s = rev (dropWhile (\<lambda>c. c = CHR ''0'') (rev s))"

definition Number_toString :: "nat \<Rightarrow> string" where
  "Number_toString x =
     (if 2 ^ 1024 \<le> x then ''Infinity''
      else (let ds = decimal (shortest x); n = length ds in
              if n \<le> 21 then ds
              else (let s = strip_zeros ds in
                      (if length s = 1 then s else hd s # CHR ''.'' # tl s) @
                      ''e+'' @ decimal (n - 1))))"

definition toString :: "int \<Rightarrow> string" where
  "toString i =
     (if i < 0 then ''-'' @ Number_toString (toNumber (nat (- i)))
      else Number_toString (toNumber (nat i)))"

text \<open>
  \<^verbatim>\<open>node.info.split(/\s+/)\<close>: the pieces between the maximal runs of white space
  (a subject that starts or ends with white space yields an empty first or last piece).
  Below 256 the class \<^verbatim>\<open>\s\<close> holds the space, the controls \<open>0x09\<close> to \<open>0x0D\<close> and the
  no-break space \<open>0xA0\<close>.
\<close>

definition isSpace :: "char \<Rightarrow> bool" where
  "isSpace c =
     (c \<in> set [CHR '' '', CHR 0x09, CHR 0x0A, CHR 0x0B, CHR 0x0C, CHR 0x0D, CHR 0xA0])"

function split_spaces :: "string \<Rightarrow> string list" where
  "split_spaces s =
     (case dropWhile (\<lambda>c. \<not> isSpace c) s of
        [] \<Rightarrow> [s]
      | sp # rest \<Rightarrow>
          takeWhile (\<lambda>c. \<not> isSpace c) s # split_spaces (dropWhile isSpace rest))"
  by pat_completeness auto
termination
proof (relation "measure length")
  show "wf (measure length)" by simp
next
  fix s :: string and sp rest
  assume h: "dropWhile (\<lambda>c. \<not> isSpace c) s = sp # rest"
  have "length (dropWhile isSpace rest) \<le> length rest"
    by (rule length_dropWhile_le)
  moreover have "length (sp # rest) \<le> length s"
    using length_dropWhile_le [of "\<lambda>c. \<not> isSpace c" s] h by simp
  ultimately show "(dropWhile isSpace rest, s) \<in> measure length"
    by simp
qed

declare split_spaces.simps [simp del]

subsection \<open>The data model\<close>

text \<open>
  A node of the document tree, as the renderer reads it. A field that is \<^verbatim>\<open>null\<close> or
  the empty string is falsy in the source's tests (\<^verbatim>\<open>if (node.title)\<close>,
  \<^verbatim>\<open>node.info ? ... : []\<close>): an absent string field is the empty string here.
  \<^verbatim>\<open>listStart\<close> and \<^verbatim>\<open>sourcepos\<close> are compared with \<^verbatim>\<open>null\<close>, so they are options;
  \<^verbatim>\<open>parent\<close> is \<^verbatim>\<open>null\<close> at the root.
\<close>

record node_fields =
  type :: string
  literal :: string
  destination :: string
  title :: string
  level :: int
  listType :: string
  listStart :: "int option"
  listTight :: bool
  info :: string
  sourcepos :: "((int \<times> int) \<times> (int \<times> int)) option"

datatype node = Node (props: node_fields) (parent: "node option")

text \<open>An event of the walker: the node and the flag \<^verbatim>\<open>entering\<close>.\<close>

type_synonym event = "node \<times> bool"

type_synonym attrs = "(string \<times> string) list"

record options =
  safe :: bool
  opt_sourcepos :: bool
  time :: bool

text \<open>
  The renderer object. \<^verbatim>\<open>escape\<close> is \<^verbatim>\<open>escapeXml\<close> of \<^verbatim>\<open>./common\<close>, which is not
  part of this file: it is a field of the object and stays a parameter of the model.
\<close>

record HtmlRenderer =
  SOFTBREAK :: string
  escape :: "string \<Rightarrow> bool \<Rightarrow> string"
  options :: options
  buffer :: string
  lastOut :: string
  disableTags :: int
  entering :: bool

text \<open>
  What a render can throw: the string \<^verbatim>\<open>"Unknown node type " + node.type\<close> of the
  dispatcher (the constructor carries \<^verbatim>\<open>node.type\<close>), a \<^verbatim>\<open>TypeError\<close> of the
  language (reading a property of \<^verbatim>\<open>null\<close>, calling a value that is no function) and
  its \<^verbatim>\<open>RangeError\<close> for a recursion without end.
\<close>

datatype error = UnknownNodeType string | TypeError string | RangeError string

subsection \<open>Output\<close>

definition out :: "string \<Rightarrow> HtmlRenderer \<Rightarrow> HtmlRenderer" where
  "out s this =
     (if disableTags this > 0
      then this\<lparr>buffer := buffer this @ replace_reHtmlTag s, lastOut := s\<rparr>
      else this\<lparr>buffer := buffer this @ s, lastOut := s\<rparr>)"

definition cr :: "HtmlRenderer \<Rightarrow> HtmlRenderer" where
  "cr this =
     (if lastOut this \<noteq> ''\<newline>''
      then this\<lparr>buffer := buffer this @ ''\<newline>'', lastOut := ''\<newline>''\<rparr>
      else this)"

text \<open>
  The loop of \<^verbatim>\<open>tag\<close> over \<^verbatim>\<open>attrs\<close>. \<^verbatim>\<open>tag\<close> is also called with no second
  argument (\<^verbatim>\<open>this.tag('/a')\<close>), which is \<open>None\<close>, and with no third, which is falsy.
\<close>

fun tag_attrs :: "attrs \<Rightarrow> string" where
  "tag_attrs [] = []"
| \<open>tag_attrs (attrib # rest) =
     '' '' @ fst attrib @ ''="'' @ snd attrib @ ''"'' @ tag_attrs rest\<close>

definition tag :: "string \<Rightarrow> attrs option \<Rightarrow> bool \<Rightarrow> string" where
  "tag name as selfclosing =
     (''<'' @ name) @
     (case as of None \<Rightarrow> [] | Some a \<Rightarrow> if length a > 0 then tag_attrs a else []) @
     (if selfclosing then '' /'' else []) @ ''>''"

subsection \<open>The node handlers\<close>

text \<open>
  Each handler is called as \<^verbatim>\<open>this[method](node, attrs)\<close> after \<^verbatim>\<open>this.entering\<close>
  was set from the event. The handlers named \<open>text\<close>, \<open>image\<close>, \<open>paragraph\<close> and
  \<open>list\<close> in the source carry the suffix \<open>_node\<close> here.
\<close>

definition document :: "HtmlRenderer \<Rightarrow> HtmlRenderer" where
  "document this = this"

definition text_node :: "node \<Rightarrow> HtmlRenderer \<Rightarrow> HtmlRenderer" where
  "text_node node this = out (escape this (literal (props node)) False) this"

definition softbreak :: "HtmlRenderer \<Rightarrow> HtmlRenderer" where
  "softbreak this = out (SOFTBREAK this) this"

definition hardbreak :: "HtmlRenderer \<Rightarrow> HtmlRenderer" where
  "hardbreak this = cr (out (tag ''br'' (Some []) True) this)"

definition emph :: "HtmlRenderer \<Rightarrow> HtmlRenderer" where
  "emph this = out (tag (if entering this then ''em'' else ''/em'') None False) this"

definition strong :: "HtmlRenderer \<Rightarrow> HtmlRenderer" where
  "strong this = out (tag (if entering this then ''strong'' else ''/strong'') None False) this"

definition html :: "node \<Rightarrow> HtmlRenderer \<Rightarrow> HtmlRenderer" where
  "html node this =
     (if safe (options this) then out ''<!-- raw HTML omitted -->'' this
      else out (literal (props node)) this)"

definition link :: "node \<Rightarrow> attrs \<Rightarrow> HtmlRenderer \<Rightarrow> HtmlRenderer" where
  "link node attrs this =
     (if entering this then
        (let attrs1 =
               (if \<not> (safe (options this) \<and> potentiallyUnsafe (destination (props node)))
                then attrs @ [(''href'', escape this (destination (props node)) True)]
                else attrs);
             attrs2 =
               (if title (props node) \<noteq> []
                then attrs1 @ [(''title'', escape this (title (props node)) True)]
                else attrs1)
         in out (tag ''a'' (Some attrs2) False) this)
      else out (tag ''/a'' None False) this)"

definition image_node :: "node \<Rightarrow> HtmlRenderer \<Rightarrow> HtmlRenderer" where
  \<open>image_node node this =
     (if entering this then
        (let this1 =
               (if disableTags this = 0 then
                  (if safe (options this) \<and> potentiallyUnsafe (destination (props node))
                   then out ''<img src="" alt="'' this
                   else out (''<img src="'' @ escape this (destination (props node)) True @
                             ''" alt="'') this)
                else this)
         in this1\<lparr>disableTags := disableTags this1 + 1\<rparr>)
      else
        (let this1 = this\<lparr>disableTags := disableTags this - 1\<rparr> in
           if disableTags this1 = 0 then
             (let this2 =
                    (if title (props node) \<noteq> []
                     then out (''" title="'' @ escape this1 (title (props node)) True) this1
                     else this1)
              in out ''" />'' this2)
           else this1))\<close>

definition code :: "node \<Rightarrow> HtmlRenderer \<Rightarrow> HtmlRenderer" where
  "code node this =
     out (tag ''code'' None False @ escape this (literal (props node)) False @
          tag ''/code'' None False) this"

definition codeblock :: "node \<Rightarrow> attrs \<Rightarrow> HtmlRenderer \<Rightarrow> HtmlRenderer" where
  "codeblock node attrs this =
     (let info_words = (if info (props node) \<noteq> [] then split_spaces (info (props node)) else []);
          attrs1 =
            (if length info_words > 0 \<and> length (hd info_words) > 0
             then attrs @ [(''class'', ''language-'' @ escape this (hd info_words) True)]
             else attrs);
          this1 = cr this;
          this2 = out (tag ''pre'' None False @ tag ''code'' (Some attrs1) False) this1;
          this3 = out (escape this (literal (props node)) False) this2;
          this4 = out (tag ''/code'' None False @ tag ''/pre'' None False) this3
      in cr this4)"

text \<open>
  \<^verbatim>\<open>var grandparent = node.parent.parent;\<close> throws a \<^verbatim>\<open>TypeError\<close> when
  \<^verbatim>\<open>node.parent\<close> is \<^verbatim>\<open>null\<close>. The test of the grandparent's type is an exact
  comparison with \<^verbatim>\<open>'List'\<close>.
\<close>

definition paragraph_node :: "node \<Rightarrow> attrs \<Rightarrow> HtmlRenderer \<Rightarrow> error + HtmlRenderer" where
  "paragraph_node node attrs this =
     (case parent node of
        None \<Rightarrow> Inl (TypeError ''node.parent is null'')
      | Some p \<Rightarrow>
          (let grandparent = parent p in
             if (case grandparent of
                   None \<Rightarrow> False
                 | Some g \<Rightarrow> type (props g) = ''List'' \<and> listTight (props g))
             then Inr this
             else if entering this
               then Inr (out (tag ''p'' (Some attrs) False) (cr this))
               else Inr (cr (out (tag ''/p'' None False) this))))"

text \<open>
  \<^verbatim>\<open>blockquote\<close> and \<^verbatim>\<open>item\<close> are declared with the single parameter
  \<^verbatim>\<open>attrs\<close>, which receives the node: the node has no \<^verbatim>\<open>length\<close>, so \<^verbatim>\<open>tag\<close>
  writes no attribute, as for an absent argument.
\<close>

definition blockquote :: "HtmlRenderer \<Rightarrow> HtmlRenderer" where
  "blockquote this =
     (if entering this
      then cr (out (tag ''blockquote'' None False) (cr this))
      else cr (out (tag ''/blockquote'' None False) (cr this)))"

definition item :: "HtmlRenderer \<Rightarrow> HtmlRenderer" where
  "item this =
     (if entering this
      then out (tag ''li'' None False) this
      else cr (out (tag ''/li'' None False) this))"

definition list_node :: "node \<Rightarrow> attrs \<Rightarrow> HtmlRenderer \<Rightarrow> HtmlRenderer" where
  "list_node node attrs this =
     (let tagname = (if listType (props node) = ''Bullet'' then ''ul'' else ''ol'') in
        if entering this then
          (let start = listStart (props node);
               attrs1 =
                 (case start of
                    None \<Rightarrow> attrs
                  | Some n \<Rightarrow> if n \<noteq> 1 then attrs @ [(''start'', toString n)] else attrs)
           in cr (out (tag tagname (Some attrs1) False) (cr this)))
        else cr (out (tag (''/'' @ tagname) None False) (cr this)))"

definition header :: "node \<Rightarrow> attrs \<Rightarrow> HtmlRenderer \<Rightarrow> HtmlRenderer" where
  "header node attrs this =
     (let tagname = ''h'' @ toString (level (props node)) in
        if entering this
        then out (tag tagname (Some attrs) False) (cr this)
        else cr (out (tag (''/'' @ tagname) None False) this))"

definition htmlblock :: "node \<Rightarrow> HtmlRenderer \<Rightarrow> HtmlRenderer" where
  "htmlblock node this =
     (let this1 = cr this;
          this2 = (if safe (options this1) then out ''<!-- raw HTML omitted -->'' this1
                   else out (literal (props node)) this1)
      in cr this2)"

definition horizontalrule :: "attrs \<Rightarrow> HtmlRenderer \<Rightarrow> HtmlRenderer" where
  "horizontalrule attrs this = cr (out (tag ''hr'' (Some attrs) True) (cr this))"

subsection \<open>The dispatcher\<close>

text \<open>
  Modelled from the spec: \<^verbatim>\<open>escapeXml\<close> of \<^verbatim>\<open>./common\<close>, which is outside
  \<^verbatim>\<open>lib/html.js\<close>; the spec's escape primitive replaces \<^verbatim>\<open>&\<close>, \<^verbatim>\<open><\<close> and
  \<^verbatim>\<open>>\<close> always and the double quote in attribute mode. The constructor stores it in the
  field \<^verbatim>\<open>escape\<close>; the handlers call the field, and the theorems hold for every
  value of it.
\<close>

definition escapeXml :: "string \<Rightarrow> bool \<Rightarrow> string" where
  "escapeXml s isAttribute =
     concat (map (\<lambda>c. if c = CHR ''&'' then ''&amp;''
                      else if c = CHR ''<'' then ''&lt;''
                      else if c = CHR ''>'' then ''&gt;''
                      else if c = CHR 0x22 \<and> isAttribute then ''&quot;''
                      else [c]) s)"

text \<open>
  \<^verbatim>\<open>var method = node.type.toLowerCase(); if (this[method]) { this[method](node, attrs); }
  else { throw "Unknown node type " + node.type; }\<close>
  The lookup \<^verbatim>\<open>this[method]\<close> sees every property of the renderer and of its
  prototypes whose name is in lower case: the eighteen node handlers, the other methods
  (\<^verbatim>\<open>render\<close>, \<^verbatim>\<open>out\<close>, \<^verbatim>\<open>cr\<close>, \<^verbatim>\<open>tag\<close>, the field \<^verbatim>\<open>escape\<close> and the
  inherited \<^verbatim>\<open>constructor\<close>) and the data properties \<^verbatim>\<open>options\<close>, \<^verbatim>\<open>__proto__\<close>
  (objects, always truthy), \<^verbatim>\<open>buffer\<close> (truthy when not empty) and \<^verbatim>\<open>entering\<close>.
  The names \<^verbatim>\<open>lastOut\<close>, \<^verbatim>\<open>disableTags\<close> and \<^verbatim>\<open>SOFTBREAK\<close> hold capitals and
  are never the result of \<^verbatim>\<open>toLowerCase\<close>.
\<close>

definition handlers :: "string list" where
  "handlers =
     [''document'', ''text'', ''softbreak'', ''hardbreak'', ''emph'', ''strong'', ''html'',
      ''link'', ''image'', ''code'', ''codeblock'', ''paragraph'', ''blockquote'', ''item'',
      ''list'', ''header'', ''htmlblock'', ''horizontalrule'']"

definition other_methods :: "string list" where
  "other_methods = [''render'', ''out'', ''cr'', ''tag'', ''escape'', ''constructor'']"

text \<open>\<open>member_truthy this method\<close>: the value \<^verbatim>\<open>this[method]\<close> is truthy.\<close>

definition member_truthy :: "HtmlRenderer \<Rightarrow> string \<Rightarrow> bool" where
  "member_truthy this method =
     (List.member handlers method \<or> List.member other_methods method \<or>
      method = ''options'' \<or> method = ''__proto__'' \<or>
      (method = ''buffer'' \<and> buffer this \<noteq> []) \<or>
      (method = ''entering'' \<and> entering this))"

text \<open>
  \<open>call method node attrs this\<close>: the call \<^verbatim>\<open>this[method](node, attrs)\<close> of a truthy
  member. A node handler gets its arguments. The other methods get the node where they
  expect something else:
  \<^item> \<^verbatim>\<open>cr\<close> takes no argument and runs as it is; \<^verbatim>\<open>tag\<close> builds a string from the
    node and the attributes and \<^verbatim>\<open>escape\<close> is applied to them, and the results are
    dropped;
  \<^item> \<^verbatim>\<open>out\<close> gets the node as \<^verbatim>\<open>s\<close>: while \<^verbatim>\<open>disableTags\<close> is positive
    \<^verbatim>\<open>s.replace\<close> is no function; otherwise \<^verbatim>\<open>+=\<close> appends the node's string
    \<^verbatim>\<open>[object Object]\<close>, and \<^verbatim>\<open>lastOut\<close> becomes the node, which \<^verbatim>\<open>cr\<close> finds
    different from the newline as it does this string;
  \<^item> \<^verbatim>\<open>constructor\<close> is \<^verbatim>\<open>HtmlRenderer\<close> itself, run on \<^verbatim>\<open>this\<close> with the node
    as \<^verbatim>\<open>options\<close>: it assigns \<^verbatim>\<open>SOFTBREAK\<close> and \<^verbatim>\<open>escape\<close> anew, and the
    options read from now on are the node's properties, of which it has
    \<^verbatim>\<open>sourcepos\<close> (truthy unless \<^verbatim>\<open>null\<close>) and neither \<^verbatim>\<open>safe\<close> nor \<^verbatim>\<open>time\<close>;
  \<^item> \<^verbatim>\<open>render\<close> walks the node, and the first event of the walker of a node is this
    node, entering, so the inner \<^verbatim>\<open>render\<close> dispatches the same node to
    \<^verbatim>\<open>render\<close> again: the recursion ends in the \<^verbatim>\<open>RangeError\<close> of the call stack.
  A truthy member that is no function (\<^verbatim>\<open>options\<close>, \<^verbatim>\<open>__proto__\<close>, \<^verbatim>\<open>buffer\<close>,
  \<^verbatim>\<open>entering\<close>) cannot be called.
\<close>

definition call :: "string \<Rightarrow> node \<Rightarrow> attrs \<Rightarrow> HtmlRenderer \<Rightarrow> error + HtmlRenderer" where
  "call method node attrs this =
     (if method = ''document'' then Inr (document this)
      else if method = ''text'' then Inr (text_node node this)
      else if method = ''softbreak'' then Inr (softbreak this)
      else if method = ''hardbreak'' then Inr (hardbreak this)
      else if method = ''emph'' then Inr (emph this)
      else if method = ''strong'' then Inr (strong this)
      else if method = ''html'' then Inr (html node this)
      else if method = ''link'' then Inr (link node attrs this)
      else if method = ''image'' then Inr (image_node node this)
      else if method = ''code'' then Inr (code node this)
      else if method = ''codeblock'' then Inr (codeblock node attrs this)
      else if method = ''paragraph'' then paragraph_node node attrs this
      else if method = ''blockquote'' then Inr (blockquote this)
      else if method = ''item'' then Inr (item this)
      else if method = ''list'' then Inr (list_node node attrs this)
      else if method = ''header'' then Inr (header node attrs this)
      else if method = ''htmlblock'' then Inr (htmlblock node this)
      else if method = ''horizontalrule'' then Inr (horizontalrule attrs this)
      else if method = ''cr'' then Inr (cr this)
      else if method = ''tag'' then Inr this
      else if method = ''escape'' then Inr this
      else if method = ''out'' then
        (if disableTags this > 0 then Inl (TypeError ''s.replace is not a function'')
         else Inr (this\<lparr>buffer := buffer this @ ''[object Object]'',
                        lastOut := ''[object Object]''\<rparr>))
      else if method = ''constructor'' then
        Inr (this\<lparr>SOFTBREAK := ''\<newline>'', escape := escapeXml,
                   options := \<lparr>safe = False,
                                opt_sourcepos = (sourcepos (props node) \<noteq> None),
                                time = False\<rparr>\<rparr>)
      else if method = ''render'' then Inl (RangeError ''Maximum call stack size exceeded'')
      else Inl (TypeError ''this[method] is not a function''))"

text \<open>The attribute list \<^verbatim>\<open>attrs\<close> that the loop of \<^verbatim>\<open>render\<close> builds for an event:
  empty, or the source position under the option \<^verbatim>\<open>sourcepos\<close>.\<close>

definition sourcepos_attrs :: "HtmlRenderer \<Rightarrow> node \<Rightarrow> attrs" where
  "sourcepos_attrs this node =
     (if opt_sourcepos (options this) then
        (case sourcepos (props node) of
           None \<Rightarrow> []
         | Some pos \<Rightarrow>
             [(''data-sourcepos'',
               toString (fst (fst pos)) @ '':'' @ toString (snd (fst pos)) @ ''-'' @
               toString (fst (snd pos)) @ '':'' @ toString (snd (snd pos)))])
      else [])"

text \<open>The body of the loop of \<^verbatim>\<open>render\<close> for one event.\<close>

definition step :: "event \<Rightarrow> HtmlRenderer \<Rightarrow> error + HtmlRenderer" where
  "step event this0 =
     (let this = this0\<lparr>entering := snd event\<rparr>;
          node = fst event;
          attrs = sourcepos_attrs this node;
          method = toLowerCase (type (props node))
      in if member_truthy this method then call method node attrs this
         else Inl (UnknownNodeType (type (props node))))"

text \<open>The loop \<^verbatim>\<open>while ((event = walker.next()))\<close> over the events the walker yields;
  an exception ends it.\<close>

fun run :: "event list \<Rightarrow> HtmlRenderer \<Rightarrow> error + HtmlRenderer" where
  "run [] this = Inr this"
| "run (event # events) this =
     (case step event this of Inl e \<Rightarrow> Inl e | Inr this' \<Rightarrow> run events this')"

text \<open>
  \<^verbatim>\<open>render\<close>: the renderer after the loop (\<open>render_loop\<close>) and the returned buffer.
  The calls of \<^verbatim>\<open>console.time\<close> under the option \<^verbatim>\<open>time\<close> do not touch the renderer.
\<close>

definition render_loop :: "HtmlRenderer \<Rightarrow> event list \<Rightarrow> error + HtmlRenderer" where
  "render_loop this events =
     run events (this\<lparr>buffer := [], lastOut := ''\<newline>'', disableTags := 0, entering := False\<rparr>)"

definition render :: "HtmlRenderer \<Rightarrow> event list \<Rightarrow> error + string" where
  "render this events =
     (case render_loop this events of Inl e \<Rightarrow> Inl e | Inr this' \<Rightarrow> Inr (buffer this'))"

text \<open>
  The constructor \<^verbatim>\<open>HtmlRenderer(options)\<close> sets \<^verbatim>\<open>SOFTBREAK\<close>, \<^verbatim>\<open>escape\<close> and
  \<^verbatim>\<open>options\<close>; the other four fields do not exist before \<^verbatim>\<open>render\<close> assigns them
  (they are given the values \<^verbatim>\<open>render\<close> assigns).
\<close>

definition new_HtmlRenderer :: "options \<Rightarrow> HtmlRenderer" where
  "new_HtmlRenderer opts =
     \<lparr>SOFTBREAK = ''\<newline>'', escape = escapeXml, options = opts,
      buffer = [], lastOut = ''\<newline>'', disableTags = 0, entering = False\<rparr>"

subsection \<open>Vocabulary of the properties and example data\<close>

text \<open>\<open>is_method m node\<close>: the dispatcher takes \<open>node\<close> to the member named \<open>m\<close>.\<close>

definition is_method :: "string \<Rightarrow> node \<Rightarrow> bool" where
  "is_method m node = (toLowerCase (type (props node)) = m)"

text \<open>Example data: a node with every field absent, a renderer with no option set, and
  the nodes and small trees that the concrete examples below render.\<close>

definition no_fields :: node_fields where
  "no_fields = \<lparr>type = [], literal = [], destination = [], title = [], level = 1,
     listType = [], listStart = None, listTight = False, info = [], sourcepos = None\<rparr>"

definition plain :: HtmlRenderer where
  "plain = new_HtmlRenderer \<lparr>safe = False, opt_sourcepos = False, time = False\<rparr>"

definition image_u :: node where
  "image_u = Node (no_fields\<lparr>type := ''Image'', destination := ''u''\<rparr>) None"

definition hardbreak_n :: node where
  "hardbreak_n = Node (no_fields\<lparr>type := ''Hardbreak''\<rparr>) None"

definition document_n :: node where
  "document_n = Node (no_fields\<lparr>type := ''Document''\<rparr>) None"

definition paragraph_orphan :: node where
  "paragraph_orphan = Node (no_fields\<lparr>type := ''Paragraph''\<rparr>) None"

definition paragraph_top :: node where
  "paragraph_top = Node (no_fields\<lparr>type := ''Paragraph''\<rparr>) (Some document_n)"

definition unknown_foo :: node where
  "unknown_foo = Node (no_fields\<lparr>type := ''Foo''\<rparr>) None"

definition list_tight :: node where
  "list_tight =
     Node (no_fields\<lparr>type := ''List'', listType := ''Bullet'', listTight := True\<rparr>)
       (Some document_n)"

definition item_tight :: node where
  "item_tight = Node (no_fields\<lparr>type := ''Item''\<rparr>) (Some list_tight)"

definition paragraph_tight :: node where
  "paragraph_tight = Node (no_fields\<lparr>type := ''Paragraph''\<rparr>) (Some item_tight)"

definition text_hi :: node where
  "text_hi = Node (no_fields\<lparr>type := ''Text'', literal := ''hi''\<rparr>) (Some paragraph_tight)"

text \<open>
  Following the spec's words for \<^verbatim>\<open>emit\<close> (``strip any substring matching an HTML
  start/end tag pattern''): every match of \<^verbatim>\<open>reHtmlTag\<close> removed, from left to right,
  as \<^verbatim>\<open>replace\<close> with the flag \<^verbatim>\<open>g\<close> would. It is not what the source calls;
  it is the text the claim about \<^verbatim>\<open>out\<close> compares with.
\<close>

function strip_all_tags_spec :: "string \<Rightarrow> string" where
  "strip_all_tags_spec s =
     (case reHtmlTag_exec s of
        None \<Rightarrow> s
      | Some (before, after) \<Rightarrow> before @ strip_all_tags_spec after)"
  by pat_completeness auto
termination
proof (relation "measure length")
  show "wf (measure length)" by simp
next
  fix s :: string and x2 before after
  assume "reHtmlTag_exec s = Some x2" and "(before, after) = x2"
  then obtain lt inner gt where
    a: "dropWhile (\<lambda>c. c \<noteq> CHR ''<'') s = lt # inner" and
    b: "dropWhile (\<lambda>c. c \<noteq> CHR ''>'') inner = gt # after"
    by (auto simp add: reHtmlTag_exec_def split: list.splits)
  have "length (gt # after) \<le> length inner"
    using length_dropWhile_le [of "\<lambda>c. c \<noteq> CHR ''>''" inner] b by simp
  moreover have "length (lt # inner) \<le> length s"
    using length_dropWhile_le [of "\<lambda>c. c \<noteq> CHR ''<''" s] a by simp
  ultimately show "(after, s) \<in> measure length" by simp
qed

declare strip_all_tags_spec.simps [simp del]

text \<open>\<open>at_most_one_tag s\<close>: nothing matches \<^verbatim>\<open>reHtmlTag\<close> after its leftmost
  match in \<open>s\<close>.\<close>

definition at_most_one_tag :: "string \<Rightarrow> bool" where
  "at_most_one_tag s =
     (case reHtmlTag_exec s of
        None \<Rightarrow> True
      | Some (before, after) \<Rightarrow> reHtmlTag_exec after = None)"

definition list_bullet_5 :: node where
  "list_bullet_5 =
     Node (no_fields\<lparr>type := ''List'', listType := ''Bullet'', listStart := Some 5\<rparr>) None"

definition list_ordered_5 :: node where
  "list_ordered_5 =
     Node (no_fields\<lparr>type := ''List'', listType := ''Ordered'', listStart := Some 5\<rparr>) None"

definition list_ordered_1 :: node where
  "list_ordered_1 =
     Node (no_fields\<lparr>type := ''List'', listType := ''Ordered'', listStart := Some 1\<rparr>) None"

text \<open>
  The traversal contract for images: \<open>balanced d events\<close> holds when, starting below
  \<open>d\<close> open images, every leaving event of an image node in \<open>events\<close> closes an image
  that is open, and none stays open at the end. Events of other nodes may stand anywhere.
\<close>

fun balanced :: "nat \<Rightarrow> event list \<Rightarrow> bool" where
  "balanced d [] = (d = 0)"
| "balanced d ((node, e) # events) =
     (if is_method ''image'' node
      then (if e then balanced (Suc d) events
            else (case d of 0 \<Rightarrow> False | Suc d' \<Rightarrow> balanced d' events))
      else balanced d events)"

definition image_v :: node where
  "image_v = Node (no_fields\<lparr>type := ''Image'', destination := ''v'', title := ''t''\<rparr>) None"

definition hr_n :: node where
  "hr_n = Node (no_fields\<lparr>type := ''HorizontalRule''\<rparr>) None"

definition options_n :: node where
  "options_n = Node (no_fields\<lparr>type := ''Options''\<rparr>) None"

definition cr_n :: node where
  "cr_n = Node (no_fields\<lparr>type := ''Cr''\<rparr>) None"

text \<open>The names of all properties of the renderer that the dispatcher can reach.\<close>

definition member_names :: "string list" where
  "member_names = handlers @ other_methods @ [''options'', ''__proto__'', ''buffer'', ''entering'']"

section \<open>Properties\<close>

subsection \<open>Output and dispatch, step by step\<close>

lemma out_simps [simp]:
  "lastOut (out s this) = s"
  "disableTags (out s this) = disableTags this"
  "entering (out s this) = entering this"
  "options (out s this) = options this"
  "escape (out s this) = escape this"
  "SOFTBREAK (out s this) = SOFTBREAK this"
  by (simp_all add: out_def)

lemma buffer_out:
  "buffer (out s this) =
     buffer this @ (if disableTags this > 0 then replace_reHtmlTag s else s)"
  by (simp add: out_def)

lemma cr_simps [simp]:
  "lastOut (cr this) = ''\<newline>''"
  "disableTags (cr this) = disableTags this"
  "entering (cr this) = entering this"
  "options (cr this) = options this"
  "escape (cr this) = escape this"
  "SOFTBREAK (cr this) = SOFTBREAK this"
  by (simp_all add: cr_def)

lemma buffer_cr:
  "buffer (cr this) = buffer this @ (if lastOut this = ''\<newline>'' then [] else ''\<newline>'')"
  by (simp add: cr_def)

lemma sourcepos_attrs_entering [simp]:
  "sourcepos_attrs (this\<lparr>entering := e\<rparr>) node = sourcepos_attrs this node"
  by (simp add: sourcepos_attrs_def)

lemma step_image:
  "is_method ''image'' node \<Longrightarrow>
   step (node, e) this = Inr (image_node node (this\<lparr>entering := e\<rparr>))"
  by (simp add: is_method_def step_def Let_def member_truthy_def handlers_def call_def)

lemma step_hardbreak:
  "is_method ''hardbreak'' node \<Longrightarrow>
   step (node, e) this = Inr (hardbreak (this\<lparr>entering := e\<rparr>))"
  by (simp add: is_method_def step_def Let_def member_truthy_def handlers_def call_def)

lemma replace_br: "replace_reHtmlTag (tag ''br'' (Some []) True) = []"
  by (simp add: replace_reHtmlTag_def reHtmlTag_exec_def tag_def)

lemma buffer_hardbreak_suppressed:
  "0 < disableTags this \<Longrightarrow> buffer (hardbreak this) = buffer this @ ''\<newline>''"
  by (simp add: hardbreak_def buffer_cr buffer_out replace_br) (simp add: tag_def)

lemma image_enter0:
  \<open>disableTags this = 0 \<Longrightarrow> entering this \<Longrightarrow>
   image_node node this =
     (out (if safe (options this) \<and> potentiallyUnsafe (destination (props node))
           then ''<img src="" alt="''
           else ''<img src="'' @ escape this (destination (props node)) True @ ''" alt="'') this)
       \<lparr>disableTags := 1\<rparr>\<close>
  by (simp add: image_node_def Let_def)

lemma image_exit1:
  \<open>disableTags this = 1 \<Longrightarrow> \<not> entering this \<Longrightarrow>
   buffer (image_node node this) =
     buffer this @
     (if title (props node) \<noteq> []
      then ''" title="'' @ escape this (title (props node)) True else []) @ ''" />'' \<and>
   disableTags (image_node node this) = 0\<close>
  by (simp add: image_node_def Let_def buffer_out)

subsection \<open>The URL safety filter\<close>

text \<open>
  Claim C1 (the filter is true exactly for a destination that starts with one of the four
  unsafe schemes and is not an allow-listed image): the code does not do this. The
  destination \<^verbatim>\<open>http://a.b/?file:c\<close> starts with none of \<^verbatim>\<open>javascript:\<close>,
  \<^verbatim>\<open>vbscript:\<close>, \<^verbatim>\<open>file:\<close>, \<^verbatim>\<open>data:\<close>, and \<^verbatim>\<open>potentiallyUnsafe\<close> is true of it:
  the anchor of \<^verbatim>\<open>reUnsafeProtocol\<close> binds to its first alternative only.
\<close>

theorem potentiallyUnsafe_unanchored:
  "potentiallyUnsafe ''http://a.b/?file:c'' \<and>
   \<not> startsWith ''javascript:'' (toLowerCase ''http://a.b/?file:c'') \<and>
   \<not> startsWith ''vbscript:'' (toLowerCase ''http://a.b/?file:c'') \<and>
   \<not> startsWith ''file:'' (toLowerCase ''http://a.b/?file:c'') \<and>
   \<not> startsWith ''data:'' (toLowerCase ''http://a.b/?file:c'')"
  by (simp add: potentiallyUnsafe_def reUnsafeProtocol_test_def reSafeDataProtocol_test_def
      toLowerCase_def toLowerChar_def upperCaseLetters_def
      lowerCaseLetters_def)

subsection \<open>The tag builder\<close>

text \<open>
  Claim C3, as amended: for a name that begins with \<^verbatim>\<open>/\<close>, \<^verbatim>\<open>tag\<close> produces the
  bare closing tag when the attribute list is absent or empty, which is how the handlers
  call it; a non-empty attribute list is written into the tag as for any other name.
\<close>

theorem tag_closing_name:
  \<open>tag (CHR ''/'' # name) None False = ''</'' @ name @ ''>'' \<and>
   tag (CHR ''/'' # name) (Some []) False = ''</'' @ name @ ''>'' \<and>
   tag (CHR ''/'' # name) (Some (a # as)) False =
     ''</'' @ name @ '' '' @ fst a @ ''="'' @ snd a @ ''"'' @ tag_attrs as @ ''>''\<close>
  by (simp add: tag_def)

text \<open>Claim C3 as stated fails: the closing tag of \<^verbatim>\<open>tag('/a', [['href', 'x']])\<close>
  carries the attribute.\<close>

theorem tag_closing_name_counterexample:
  \<open>tag ''/a'' (Some [(''href'', ''x'')]) False = ''</a href="x">'' \<and>
   tag ''/a'' (Some [(''href'', ''x'')]) False \<noteq> tag ''/a'' (Some []) False\<close>
  by (simp add: tag_def)

theorem tag_closing_name_witness:
  \<open>tag ''/em'' None False = ''</em>'' \<and>
   tag ''/a'' (Some [(''href'', ''x''), (''title'', ''t'')]) False = ''</a href="x" title="t">''\<close>
proof -
  note a = tag_closing_name [of "''em''", THEN conjunct1]
  note b = tag_closing_name [of "''a''" "(''href'', ''x'')" "[(''title'', ''t'')]",
      THEN conjunct2, THEN conjunct2]
  from a b show ?thesis by simp
qed

subsection \<open>Forced line breaks\<close>

lemma step_horizontalrule:
  "is_method ''horizontalrule'' node \<Longrightarrow>
   step (node, e) this =
     Inr (horizontalrule (sourcepos_attrs this node) (this\<lparr>entering := e\<rparr>))"
  by (simp add: is_method_def step_def Let_def member_truthy_def handlers_def call_def)

lemma render_horizontalrule:
  assumes "is_method ''horizontalrule'' node"
  shows "render this [(node, True)] =
     Inr (tag ''hr'' (Some (sourcepos_attrs this node)) True @ ''\<newline>'')"
proof -
  define s0 where
    "s0 = this\<lparr>buffer := [], lastOut := ''\<newline>'', disableTags := 0, entering := False\<rparr>"
  have sp: "sourcepos_attrs s0 node = sourcepos_attrs this node"
    by (simp add: sourcepos_attrs_def s0_def)
  have ne: "tag ''hr'' (Some (sourcepos_attrs this node)) True \<noteq> ''\<newline>''"
    by (simp add: tag_def)
  have "render this [(node, True)] =
      Inr (buffer (horizontalrule (sourcepos_attrs this node) (s0\<lparr>entering := True\<rparr>)))"
    using assms by (simp add: render_def render_loop_def s0_def [symmetric] step_horizontalrule sp)
  also have "buffer (horizontalrule (sourcepos_attrs this node) (s0\<lparr>entering := True\<rparr>)) =
      tag ''hr'' (Some (sourcepos_attrs this node)) True @ ''\<newline>''"
    using ne by (simp add: horizontalrule_def buffer_cr buffer_out s0_def)
  finally show ?thesis .
qed

text \<open>
  Claim C8: \<^verbatim>\<open>cr\<close> is idempotent. It appends one newline when \<^verbatim>\<open>lastOut\<close> is not
  exactly the newline and changes nothing otherwise, so two calls in a row append what one
  call appends, at most one newline. \<^verbatim>\<open>render\<close> starts every run with \<^verbatim>\<open>lastOut\<close>
  set to the newline, whatever the renderer held before: in the state the loop starts
  from \<^verbatim>\<open>cr\<close> changes nothing, and the render of a horizontal rule, whose handler
  begins with \<^verbatim>\<open>cr\<close>, begins with the tag and not with a newline.
\<close>

theorem cr_idempotent:
  "cr (cr this) = cr this \<and>
   cr this = (if lastOut this = ''\<newline>'' then this
              else this\<lparr>buffer := buffer this @ ''\<newline>'', lastOut := ''\<newline>''\<rparr>) \<and>
   buffer (cr (cr this)) =
     (if lastOut this = ''\<newline>'' then buffer this else buffer this @ ''\<newline>'') \<and>
   cr (this\<lparr>buffer := [], lastOut := ''\<newline>'', disableTags := 0, entering := False\<rparr>) =
     this\<lparr>buffer := [], lastOut := ''\<newline>'', disableTags := 0, entering := False\<rparr> \<and>
   (\<exists>start. render_loop this [] = Inr start \<and> buffer start = [] \<and>
      lastOut start = ''\<newline>'' \<and> cr start = start) \<and>
   (is_method ''horizontalrule'' node \<longrightarrow>
      render this [(node, True)] =
        Inr (tag ''hr'' (Some (sourcepos_attrs this node)) True @ ''\<newline>''))"
proof (intro conjI impI)
  show "\<exists>start. render_loop this [] = Inr start \<and> buffer start = [] \<and>
      lastOut start = ''\<newline>'' \<and> cr start = start"
    by (simp add: render_loop_def cr_def)
next
  assume "is_method ''horizontalrule'' node"
  then show "render this [(node, True)] =
        Inr (tag ''hr'' (Some (sourcepos_attrs this node)) True @ ''\<newline>'')"
    by (rule render_horizontalrule)
qed (simp_all add: cr_def)

theorem cr_idempotent_witness:
  "buffer (cr (cr (plain\<lparr>buffer := ''<p>x</p>'', lastOut := ''</p>''\<rparr>))) = ''<p>x</p>\<newline>'' \<and>
   buffer (cr (cr (plain\<lparr>buffer := ''<hr />\<newline>'', lastOut := ''\<newline>''\<rparr>))) = ''<hr />\<newline>'' \<and>
   is_method ''horizontalrule'' hr_n \<and>
   render (plain\<lparr>buffer := ''junk'', lastOut := ''x''\<rparr>) [(hr_n, True)] = Inr ''<hr />\<newline>''"
proof -
  note a = cr_idempotent [of "plain\<lparr>buffer := ''<p>x</p>'', lastOut := ''</p>''\<rparr>",
      THEN conjunct2, THEN conjunct2, THEN conjunct1]
  note b = cr_idempotent [of "plain\<lparr>buffer := ''<hr />\<newline>'', lastOut := ''\<newline>''\<rparr>",
      THEN conjunct2, THEN conjunct2, THEN conjunct1]
  have m: "is_method ''horizontalrule'' hr_n"
    by (simp add: is_method_def hr_n_def no_fields_def toLowerCase_def toLowerChar_def
        upperCaseLetters_def lowerCaseLetters_def)
  note c = cr_idempotent [of "plain\<lparr>buffer := ''junk'', lastOut := ''x''\<rparr>" hr_n,
      THEN conjunct2, THEN conjunct2, THEN conjunct2, THEN conjunct2, THEN conjunct2,
      THEN mp, OF m]
  have "render (plain\<lparr>buffer := ''junk'', lastOut := ''x''\<rparr>) [(hr_n, True)] =
      Inr ''<hr />\<newline>''"
    unfolding c by (simp add: sourcepos_attrs_def plain_def new_HtmlRenderer_def tag_def)
  with m show ?thesis unfolding a b by simp
qed

text \<open>
  Claim C9: \<^verbatim>\<open>cr\<close> appends its newline to the buffer itself, not through \<^verbatim>\<open>out\<close>,
  so the newline is written whatever \<^verbatim>\<open>disableTags\<close> is. While \<^verbatim>\<open>disableTags\<close> is
  positive a \<^verbatim>\<open>hardbreak\<close> appends exactly a newline (its tag is stripped), and a hard
  break between the two events of an image puts a newline into the \<^verbatim>\<open>alt\<close> text.
\<close>

theorem cr_bypasses_suppression:
  \<open>(lastOut this \<noteq> ''\<newline>'' \<longrightarrow> buffer (cr this) = buffer this @ ''\<newline>'') \<and>
   (0 < disableTags this \<longrightarrow> buffer (hardbreak this) = buffer this @ ''\<newline>'') \<and>
   (is_method ''image'' img \<and> is_method ''hardbreak'' br \<longrightarrow>
      render this [(img, True), (br, True), (img, False)] =
        Inr ((if safe (options this) \<and> potentiallyUnsafe (destination (props img))
              then ''<img src="" alt="''
              else ''<img src="'' @ escape this (destination (props img)) True @ ''" alt="'') @
             ''\<newline>'' @
             (if title (props img) \<noteq> []
              then ''" title="'' @ escape this (title (props img)) True else []) @
             ''" />''))\<close>
proof (intro conjI impI)
  assume "lastOut this \<noteq> ''\<newline>''"
  then show "buffer (cr this) = buffer this @ ''\<newline>''" by (simp add: buffer_cr)
next
  assume "0 < disableTags this"
  then show "buffer (hardbreak this) = buffer this @ ''\<newline>''"
    by (rule buffer_hardbreak_suppressed)
next
  assume h: "is_method ''image'' img \<and> is_method ''hardbreak'' br"
  define s0 where
    "s0 = this\<lparr>buffer := [], lastOut := ''\<newline>'', disableTags := 0, entering := False\<rparr>"
  define s1 where "s1 = image_node img (s0\<lparr>entering := True\<rparr>)"
  define s2 where "s2 = hardbreak (s1\<lparr>entering := True\<rparr>)"
  define s3 where "s3 = image_node img (s2\<lparr>entering := False\<rparr>)"
  have r: "render this [(img, True), (br, True), (img, False)] = Inr (buffer s3)"
    using h by (simp add: render_def render_loop_def step_image step_hardbreak
        s0_def s1_def s2_def s3_def)
  have b1: \<open>buffer s1 =
      (if safe (options this) \<and> potentiallyUnsafe (destination (props img))
       then ''<img src="" alt="''
       else ''<img src="'' @ escape this (destination (props img)) True @ ''" alt="'')\<close>
    and d1: "disableTags s1 = 1" and o1: "options s1 = options this" "escape s1 = escape this"
    by (simp_all add: s1_def s0_def image_enter0 buffer_out)
  have b2: "buffer s2 = buffer s1 @ ''\<newline>''" and d2: "disableTags s2 = 1"
    and o2: "options s2 = options this" "escape s2 = escape this"
    using d1 o1 by (simp_all add: s2_def buffer_hardbreak_suppressed) (simp_all add: hardbreak_def)
  have b3: \<open>buffer s3 = buffer s2 @
      (if title (props img) \<noteq> []
       then ''" title="'' @ escape this (title (props img)) True else []) @ ''" />''\<close>
    using d2 o2 image_exit1 [of "s2\<lparr>entering := False\<rparr>" img] by (simp add: s3_def)
  show \<open>render this [(img, True), (br, True), (img, False)] =
        Inr ((if safe (options this) \<and> potentiallyUnsafe (destination (props img))
              then ''<img src="" alt="''
              else ''<img src="'' @ escape this (destination (props img)) True @ ''" alt="'') @
             ''\<newline>'' @
             (if title (props img) \<noteq> []
              then ''" title="'' @ escape this (title (props img)) True else []) @
             ''" />'')\<close>
    unfolding r b3 b2 b1 by simp
qed

theorem cr_bypasses_suppression_witness:
  \<open>is_method ''image'' image_u \<and> is_method ''hardbreak'' hardbreak_n \<and>
   render plain [(image_u, True), (hardbreak_n, True), (image_u, False)] =
     Inr ''<img src="u" alt="\<newline>" />''\<close>
proof -
  have m: "is_method ''image'' image_u \<and> is_method ''hardbreak'' hardbreak_n"
    by (simp add: is_method_def image_u_def hardbreak_n_def no_fields_def toLowerCase_def
        toLowerChar_def upperCaseLetters_def
      lowerCaseLetters_def)
  from cr_bypasses_suppression [of plain image_u hardbreak_n, THEN conjunct2, THEN conjunct2,
      THEN mp, OF m]
  have \<open>render plain [(image_u, True), (hardbreak_n, True), (image_u, False)] =
     Inr ''<img src="u" alt="\<newline>" />''\<close>
    by (simp add: plain_def new_HtmlRenderer_def image_u_def no_fields_def escapeXml_def)
  with m show ?thesis by simp
qed

subsection \<open>The dispatcher and unknown node types\<close>

lemma step_paragraph:
  "is_method ''paragraph'' node \<Longrightarrow>
   step (node, e) this =
     paragraph_node node (sourcepos_attrs this node) (this\<lparr>entering := e\<rparr>)"
  by (simp add: is_method_def step_def Let_def member_truthy_def handlers_def call_def
      sourcepos_attrs_def)

lemma step_unknown:
  "\<not> member_truthy (this\<lparr>entering := e\<rparr>) (toLowerCase (type (props node))) \<Longrightarrow>
   step (node, e) this = Inl (UnknownNodeType (type (props node)))"
  by (simp add: step_def Let_def)

lemma call_not_unknown: "call m node attrs this \<noteq> Inl (UnknownNodeType x)"
  by (simp add: call_def paragraph_node_def Let_def split: option.splits)

lemma step_unknown_only:
  "step (node, e) this = Inl (UnknownNodeType x) \<Longrightarrow>
   x = type (props node) \<and>
   \<not> member_truthy (this\<lparr>entering := e\<rparr>) (toLowerCase (type (props node)))"
  by (auto simp add: step_def Let_def call_not_unknown split: if_splits)

lemma run_append:
  "run (xs @ ys) this = (case run xs this of Inl e \<Rightarrow> Inl e | Inr this' \<Rightarrow> run ys this')"
  by (induction xs arbitrary: this) (auto split: sum.splits)

lemma run_unknown_only:
  "run events this = Inl (UnknownNodeType x) \<Longrightarrow>
   \<exists>pre node e post this'. events = pre @ (node, e) # post \<and> run pre this = Inr this' \<and>
      type (props node) = x \<and>
      \<not> member_truthy (this'\<lparr>entering := e\<rparr>) (toLowerCase (type (props node)))"
proof (induction events arbitrary: this)
  case Nil
  then show ?case by simp
next
  case (Cons ev events)
  obtain node e where ev: "ev = (node, e)" by (cases ev)
  show ?case
  proof (cases "step ev this")
    case (Inl err)
    with Cons.prems have "step (node, e) this = Inl (UnknownNodeType x)"
      by (simp add: ev)
    from step_unknown_only [OF this]
    have "ev # events = [] @ (node, e) # events \<and> run [] this = Inr this \<and>
        type (props node) = x \<and>
        \<not> member_truthy (this\<lparr>entering := e\<rparr>) (toLowerCase (type (props node)))"
      by (simp add: ev)
    then show ?thesis by blast
  next
    case (Inr this1)
    with Cons.prems have "run events this1 = Inl (UnknownNodeType x)" by simp
    from Cons.IH [OF this] obtain pre node' e' post this' where
      h: "events = pre @ (node', e') # post" "run pre this1 = Inr this'"
        "type (props node') = x"
        "\<not> member_truthy (this'\<lparr>entering := e'\<rparr>) (toLowerCase (type (props node')))"
      by blast
    have "ev # events = (ev # pre) @ (node', e') # post \<and> run (ev # pre) this = Inr this'"
      using h Inr by simp
    with h show ?thesis by blast
  qed
qed

lemma member_names_truthy:
  "member_truthy this m \<Longrightarrow> List.member member_names m"
  by (auto simp add: member_truthy_def member_names_def)

lemma step_options:
  "is_method ''options'' node \<or> is_method ''__proto__'' node \<Longrightarrow>
   step (node, e) this = Inl (TypeError ''this[method] is not a function'')"
  by (auto simp add: is_method_def step_def Let_def member_truthy_def call_def)

lemma step_cr:
  "is_method ''cr'' node \<Longrightarrow> step (node, e) this = Inr (cr (this\<lparr>entering := e\<rparr>))"
  by (simp add: is_method_def step_def Let_def member_truthy_def other_methods_def call_def)

text \<open>
  Claim C7, as amended: an event is reported as unknown exactly when the lower-cased type
  of its node names no truthy property of the renderer: none of the eighteen handlers,
  none of \<^verbatim>\<open>render\<close>, \<^verbatim>\<open>out\<close>, \<^verbatim>\<open>cr\<close>, \<^verbatim>\<open>tag\<close>, \<^verbatim>\<open>escape\<close>,
  \<^verbatim>\<open>constructor\<close>, not \<^verbatim>\<open>options\<close> or \<^verbatim>\<open>__proto__\<close>, not \<^verbatim>\<open>buffer\<close> while the
  buffer is not empty and not \<^verbatim>\<open>entering\<close> on an entering event. When such an event is
  reached (every event before it was handled without an exception), \<^verbatim>\<open>render\<close> throws
  the unknown-node-type error that carries this node's type: it returns no string, and the
  events after it have no influence; this holds in particular for every type that is
  none of the names above. Conversely \<^verbatim>\<open>render\<close> throws this error only at such an
  event. A type that names another property is not reported as unknown: \<^verbatim>\<open>options\<close>
  and \<^verbatim>\<open>__proto__\<close> end in a \<^verbatim>\<open>TypeError\<close>, and \<^verbatim>\<open>cr\<close> is run as the line
  break it is, after which the render goes on.
\<close>

theorem render_unknown_node_type:
  "(render_loop this pre = Inr this' \<and>
    \<not> member_truthy (this'\<lparr>entering := e\<rparr>) (toLowerCase (type (props node))) \<longrightarrow>
      render this (pre @ (node, e) # post) = Inl (UnknownNodeType (type (props node)))) \<and>
   (render this events = Inl (UnknownNodeType x) \<longrightarrow>
      (\<exists>pre node e post this'. events = pre @ (node, e) # post \<and>
         render_loop this pre = Inr this' \<and> type (props node) = x \<and>
         \<not> member_truthy (this'\<lparr>entering := e\<rparr>) (toLowerCase (type (props node))))) \<and>
   (render_loop this pre = Inr this' \<and>
    \<not> List.member member_names (toLowerCase (type (props node))) \<longrightarrow>
      render this (pre @ (node, e) # post) = Inl (UnknownNodeType (type (props node)))) \<and>
   (is_method ''options'' node \<or> is_method ''__proto__'' node \<longrightarrow>
      step (node, e) this = Inl (TypeError ''this[method] is not a function'')) \<and>
   (is_method ''cr'' node \<longrightarrow> step (node, e) this = Inr (cr (this\<lparr>entering := e\<rparr>)))"
proof (intro conjI impI)
  assume "render_loop this pre = Inr this' \<and>
    \<not> member_truthy (this'\<lparr>entering := e\<rparr>) (toLowerCase (type (props node)))"
  then show "render this (pre @ (node, e) # post) = Inl (UnknownNodeType (type (props node)))"
    by (simp add: render_def render_loop_def run_append step_unknown)
next
  assume "render this events = Inl (UnknownNodeType x)"
  then have "render_loop this events = Inl (UnknownNodeType x)"
    by (simp add: render_def split: sum.splits)
  then show "\<exists>pre node e post this'. events = pre @ (node, e) # post \<and>
         render_loop this pre = Inr this' \<and> type (props node) = x \<and>
         \<not> member_truthy (this'\<lparr>entering := e\<rparr>) (toLowerCase (type (props node)))"
    unfolding render_loop_def by (rule run_unknown_only)
next
  assume h: "render_loop this pre = Inr this' \<and>
    \<not> List.member member_names (toLowerCase (type (props node)))"
  then have "\<not> member_truthy (this'\<lparr>entering := e\<rparr>) (toLowerCase (type (props node)))"
    using member_names_truthy by blast
  with h show "render this (pre @ (node, e) # post) =
      Inl (UnknownNodeType (type (props node)))"
    by (simp add: render_def render_loop_def run_append step_unknown)
next
  assume "is_method ''options'' node \<or> is_method ''__proto__'' node"
  then show "step (node, e) this = Inl (TypeError ''this[method] is not a function'')"
    by (rule step_options)
next
  assume "is_method ''cr'' node"
  then show "step (node, e) this = Inr (cr (this\<lparr>entering := e\<rparr>))"
    by (rule step_cr)
qed

lemma lower_simps:
  "toLowerCase ''Foo'' = ''foo''" "toLowerCase ''Paragraph'' = ''paragraph''"
  "toLowerCase ''Text'' = ''text''" "toLowerCase ''Emph'' = ''emph''"
  "toLowerCase ''List'' = ''list''" "toLowerCase ''Image'' = ''image''"
  by (simp_all add: toLowerCase_def toLowerChar_def upperCaseLetters_def
      lowerCaseLetters_def)

lemma foo_no_member: "\<not> member_truthy this ''foo''"
  by (simp add: member_truthy_def handlers_def other_methods_def)

lemma lower_more:
  "toLowerCase ''Options'' = ''options''" "toLowerCase ''Cr'' = ''cr''"
  by (simp_all add: toLowerCase_def toLowerChar_def upperCaseLetters_def lowerCaseLetters_def)

lemma render_text_hi_state:
  "render_loop plain [(text_hi, True)] =
     Inr (plain\<lparr>buffer := ''hi'', lastOut := ''hi'', entering := True\<rparr>)"
  by (simp add: render_loop_def step_def Let_def text_hi_def no_fields_def lower_simps
      member_truthy_def handlers_def call_def text_node_def out_def plain_def
      new_HtmlRenderer_def escapeXml_def)

text \<open>
  Claim C7 as stated (every event sequence that contains a node without handler ends in
  the unknown-node-type error) fails three ways: when a paragraph without parent comes
  first, \<^verbatim>\<open>render\<close> ends with the \<^verbatim>\<open>TypeError\<close> of \<^verbatim>\<open>node.parent.parent\<close>; a
  node of type \<^verbatim>\<open>Options\<close> has no handler and ends in a \<^verbatim>\<open>TypeError\<close>; a node
  of type \<^verbatim>\<open>Cr\<close> has no handler and the render completes.
\<close>

theorem render_unknown_node_type_counterexample:
  "(\<forall>this. \<not> member_truthy this (toLowerCase (type (props unknown_foo)))) \<and>
   render plain [(paragraph_orphan, True), (unknown_foo, True)] =
     Inl (TypeError ''node.parent is null'') \<and>
   \<not> List.member handlers (toLowerCase (type (props options_n))) \<and>
   render plain [(options_n, True), (text_hi, True)] =
     Inl (TypeError ''this[method] is not a function'') \<and>
   \<not> List.member handlers (toLowerCase (type (props cr_n))) \<and>
   render plain [(cr_n, True), (text_hi, True)] = Inr ''hi''"
proof -
  have a: "(\<forall>this. \<not> member_truthy this (toLowerCase (type (props unknown_foo)))) \<and>
   render plain [(paragraph_orphan, True), (unknown_foo, True)] =
     Inl (TypeError ''node.parent is null'')"
    by (simp add: unknown_foo_def paragraph_orphan_def no_fields_def lower_simps foo_no_member
        render_def render_loop_def step_paragraph is_method_def paragraph_node_def)
  have b: "\<not> List.member handlers (toLowerCase (type (props options_n))) \<and>
   render plain [(options_n, True), (text_hi, True)] =
     Inl (TypeError ''this[method] is not a function'')"
    by (simp add: options_n_def no_fields_def lower_more handlers_def render_def
        render_loop_def step_options is_method_def)
  have c: "\<not> List.member handlers (toLowerCase (type (props cr_n))) \<and>
   render plain [(cr_n, True), (text_hi, True)] = Inr ''hi''"
    by (simp add: cr_n_def no_fields_def lower_more handlers_def render_def
        render_loop_def step_cr is_method_def cr_def)
      (simp add: step_def Let_def text_hi_def no_fields_def lower_simps
        member_truthy_def handlers_def call_def text_node_def out_def plain_def
        new_HtmlRenderer_def escapeXml_def)
  from a b c show ?thesis by blast
qed

theorem render_unknown_node_type_witness:
  "render_loop plain [(text_hi, True)] =
     Inr (plain\<lparr>buffer := ''hi'', lastOut := ''hi'', entering := True\<rparr>) \<and>
   \<not> member_truthy (plain\<lparr>buffer := ''hi'', lastOut := ''hi'', entering := True\<rparr>)
        (toLowerCase (type (props unknown_foo))) \<and>
   \<not> List.member member_names (toLowerCase (type (props unknown_foo))) \<and>
   render plain ([(text_hi, True)] @ (unknown_foo, True) # [(text_hi, True)]) =
     Inl (UnknownNodeType ''Foo'') \<and>
   is_method ''options'' options_n \<and>
   step (options_n, True) plain = Inl (TypeError ''this[method] is not a function'') \<and>
   is_method ''cr'' cr_n \<and>
   step (cr_n, True) (plain\<lparr>buffer := ''hi'', lastOut := ''hi''\<rparr>) =
     Inr (plain\<lparr>buffer := ''hi\<newline>'', lastOut := ''\<newline>'', entering := True\<rparr>)"
proof -
  note a = render_text_hi_state
  have b: "\<not> member_truthy (plain\<lparr>buffer := ''hi'', lastOut := ''hi'', entering := True\<rparr>)
        (toLowerCase (type (props unknown_foo)))"
    by (simp add: unknown_foo_def no_fields_def lower_simps foo_no_member)
  have n: "\<not> List.member member_names (toLowerCase (type (props unknown_foo)))"
    by (simp add: unknown_foo_def no_fields_def lower_simps member_names_def handlers_def
        other_methods_def)
  from render_unknown_node_type [of plain "[(text_hi, True)]" _ True unknown_foo
      "[(text_hi, True)]", THEN conjunct1, THEN mp, OF conjI, OF a]
  have "render plain ([(text_hi, True)] @ (unknown_foo, True) # [(text_hi, True)]) =
     Inl (UnknownNodeType (type (props unknown_foo)))"
    using b by simp
  then have r: "render plain ([(text_hi, True)] @ (unknown_foo, True) # [(text_hi, True)]) =
     Inl (UnknownNodeType ''Foo'')"
    by (simp add: unknown_foo_def no_fields_def)
  have mo: "is_method ''options'' options_n" and mc: "is_method ''cr'' cr_n"
    by (simp_all add: is_method_def options_n_def cr_n_def no_fields_def lower_more)
  note o = render_unknown_node_type [where node = options_n and e = True and this = plain,
      THEN conjunct2, THEN conjunct2, THEN conjunct2, THEN conjunct1, THEN mp, OF disjI1,
      OF mo]
  note c = render_unknown_node_type [where node = cr_n and e = True and
      this = "plain\<lparr>buffer := ''hi'', lastOut := ''hi''\<rparr>",
      THEN conjunct2, THEN conjunct2, THEN conjunct2, THEN conjunct2, THEN mp, OF mc]
  have c': "step (cr_n, True) (plain\<lparr>buffer := ''hi'', lastOut := ''hi''\<rparr>) =
     Inr (plain\<lparr>buffer := ''hi\<newline>'', lastOut := ''\<newline>'', entering := True\<rparr>)"
    unfolding c by (simp add: cr_def)
  from a b n r mo o mc c' show ?thesis by blast
qed

subsection \<open>Paragraphs\<close>

text \<open>
  Claim C10: the paragraph handler reads \<^verbatim>\<open>node.parent.parent\<close> before anything else.
  For a paragraph node without parent the event throws a \<^verbatim>\<open>TypeError\<close> in either
  phase, and \<^verbatim>\<open>render\<close> ends with it (no output, and not the unknown-node-type
  error); for a paragraph with a parent the event is handled.
\<close>

theorem paragraph_needs_parent:
  "is_method ''paragraph'' node \<longrightarrow>
     (parent node = None \<longrightarrow>
        step (node, e) this = Inl (TypeError ''node.parent is null'') \<and>
        (render_loop this pre = Inr this' \<longrightarrow>
           render this (pre @ (node, e) # post) = Inl (TypeError ''node.parent is null''))) \<and>
     (parent node \<noteq> None \<longrightarrow> (\<exists>this''. step (node, e) this = Inr this''))"
proof (intro impI conjI)
  assume m: "is_method ''paragraph'' node" and p: "parent node = None"
  show "step (node, e) this = Inl (TypeError ''node.parent is null'')"
    using m p by (simp add: step_paragraph paragraph_node_def)
next
  assume m: "is_method ''paragraph'' node" and p: "parent node = None"
    and r: "render_loop this pre = Inr this'"
  have "step (node, e) this' = Inl (TypeError ''node.parent is null'')"
    using m p by (simp add: step_paragraph paragraph_node_def)
  with r show "render this (pre @ (node, e) # post) = Inl (TypeError ''node.parent is null'')"
    by (simp add: render_def render_loop_def run_append)
next
  assume m: "is_method ''paragraph'' node" and p: "parent node \<noteq> None"
  then show "\<exists>this''. step (node, e) this = Inr this''"
    by (auto simp add: step_paragraph paragraph_node_def Let_def)
qed

theorem paragraph_needs_parent_witness:
  "is_method ''paragraph'' paragraph_orphan \<and> parent paragraph_orphan = None \<and>
   render plain ([(text_hi, True)] @ (paragraph_orphan, True) # [(text_hi, True)]) =
     Inl (TypeError ''node.parent is null'') \<and>
   is_method ''paragraph'' paragraph_top \<and> parent paragraph_top \<noteq> None \<and>
   (\<exists>this''. step (paragraph_top, True) plain = Inr this'')"
proof -
  have m1: "is_method ''paragraph'' paragraph_orphan" and p1: "parent paragraph_orphan = None"
    by (simp_all add: is_method_def paragraph_orphan_def no_fields_def lower_simps)
  have m2: "is_method ''paragraph'' paragraph_top" and p2: "parent paragraph_top \<noteq> None"
    by (simp_all add: is_method_def paragraph_top_def no_fields_def lower_simps)
  have a: "render_loop plain [(text_hi, True)] =
     Inr (plain\<lparr>buffer := ''hi'', lastOut := ''hi'', entering := True\<rparr>)"
    by (simp add: render_loop_def step_def Let_def text_hi_def no_fields_def lower_simps
        member_truthy_def handlers_def call_def text_node_def out_def plain_def
        new_HtmlRenderer_def escapeXml_def)
  note t1 = paragraph_needs_parent [of paragraph_orphan True plain "[(text_hi, True)]" _
      "[(text_hi, True)]", THEN mp, OF m1, THEN conjunct1, THEN mp, OF p1, THEN conjunct2,
      THEN mp, OF a]
  note t2 = paragraph_needs_parent [of paragraph_top True plain, THEN mp, OF m2,
      THEN conjunct2, THEN mp, OF p2]
  from m1 p1 m2 p2 t1 t2 show ?thesis by blast
qed

lemma step_entering: "step ev (this\<lparr>entering := b\<rparr>) = step ev this"
  by (simp add: step_def)

lemma run_entering:
  "run events (this\<lparr>entering := b\<rparr>) =
     (case events of [] \<Rightarrow> Inr (this\<lparr>entering := b\<rparr>) | ev # evs \<Rightarrow> run events this)"
  by (cases events) (simp_all add: step_entering)

lemma paragraph_tight_noop:
  "parent node = Some p \<Longrightarrow> parent p = Some g \<Longrightarrow> type (props g) = ''List'' \<Longrightarrow>
   listTight (props g) \<Longrightarrow> paragraph_node node attrs this = Inr this"
  by (simp add: paragraph_node_def)

lemma render_around_noop:
  assumes "\<And>e this. step (node, e) this = Inr (this\<lparr>entering := e\<rparr>)"
  shows "render this ((node, True) # events @ [(node, False)]) = render this events"
proof -
  define s0 where
    "s0 = this\<lparr>buffer := [], lastOut := ''\<newline>'', disableTags := 0, entering := False\<rparr>"
  have "run ((node, True) # events @ [(node, False)]) s0 =
      (case run events (s0\<lparr>entering := True\<rparr>) of Inl err \<Rightarrow> Inl err
       | Inr s \<Rightarrow> Inr (s\<lparr>entering := False\<rparr>))"
    by (simp add: assms run_append split: sum.splits)
  moreover have "(case run events (s0\<lparr>entering := True\<rparr>) of Inl err \<Rightarrow> Inl err
       | Inr s \<Rightarrow> Inr (buffer s)) =
     (case run events s0 of Inl err \<Rightarrow> Inl err | Inr s \<Rightarrow> Inr (buffer s))"
    by (cases events) (simp_all add: run_entering)
  ultimately show ?thesis
    by (simp add: render_def render_loop_def s0_def [symmetric] split: sum.splits)
qed

text \<open>
  Claim C6, as amended: for a paragraph node that has a parent. When the parent's parent
  is a node of type \<^verbatim>\<open>List\<close> with \<^verbatim>\<open>listTight\<close>, both events of the paragraph
  leave buffer, \<^verbatim>\<open>lastOut\<close> and \<^verbatim>\<open>disableTags\<close> as they are, and the events
  between them render as they do alone. Otherwise the entering event is \<^verbatim>\<open>cr\<close> and
  then \<^verbatim>\<open>out\<close> of the tag \<^verbatim>\<open>p\<close>, the leaving event \<^verbatim>\<open>out\<close> of the tag
  \<^verbatim>\<open>/p\<close> and then \<^verbatim>\<open>cr\<close>.
\<close>

theorem paragraph_tight_or_tagged:
  "is_method ''paragraph'' node \<and> parent node = Some p \<longrightarrow>
     (parent p = Some g \<and> type (props g) = ''List'' \<and> listTight (props g) \<longrightarrow>
        step (node, e) this = Inr (this\<lparr>entering := e\<rparr>) \<and>
        render this ((node, True) # events @ [(node, False)]) = render this events) \<and>
     (\<not> (\<exists>g. parent p = Some g \<and> type (props g) = ''List'' \<and> listTight (props g)) \<longrightarrow>
        step (node, True) this =
          Inr (out (tag ''p'' (Some (sourcepos_attrs this node)) False)
                 (cr (this\<lparr>entering := True\<rparr>))) \<and>
        step (node, False) this =
          Inr (cr (out (tag ''/p'' None False) (this\<lparr>entering := False\<rparr>))))"
proof (intro impI conjI)
  assume a: "is_method ''paragraph'' node \<and> parent node = Some p"
    and b: "parent p = Some g \<and> type (props g) = ''List'' \<and> listTight (props g)"
  have st: "step (node, e') this' = Inr (this'\<lparr>entering := e'\<rparr>)" for e' this'
    using a b by (simp add: step_paragraph paragraph_tight_noop)
  show "step (node, e) this = Inr (this\<lparr>entering := e\<rparr>)" by (rule st)
  show "render this ((node, True) # events @ [(node, False)]) = render this events"
    by (rule render_around_noop) (rule st)
next
  assume a: "is_method ''paragraph'' node \<and> parent node = Some p"
    and b: "\<not> (\<exists>g. parent p = Some g \<and> type (props g) = ''List'' \<and> listTight (props g))"
  then have c: "\<not> (case parent p of None \<Rightarrow> False
      | Some g \<Rightarrow> type (props g) = ''List'' \<and> listTight (props g))"
    by (simp split: option.splits)
  show "step (node, True) this =
          Inr (out (tag ''p'' (Some (sourcepos_attrs this node)) False)
                 (cr (this\<lparr>entering := True\<rparr>)))"
    using a c by (simp add: step_paragraph paragraph_node_def Let_def sourcepos_attrs_def)
  show "step (node, False) this =
          Inr (cr (out (tag ''/p'' None False) (this\<lparr>entering := False\<rparr>)))"
    using a c by (simp add: step_paragraph paragraph_node_def Let_def)
qed

text \<open>
  Claim C6 as stated (every other paragraph gets its tags) fails for a paragraph without
  parent, which is not below a tight list: both its events throw.
\<close>

theorem paragraph_tight_or_tagged_counterexample:
  "is_method ''paragraph'' paragraph_orphan \<and>
   step (paragraph_orphan, True) plain = Inl (TypeError ''node.parent is null'') \<and>
   step (paragraph_orphan, False) plain = Inl (TypeError ''node.parent is null'') \<and>
   render plain [(paragraph_orphan, True), (paragraph_orphan, False)] =
     Inl (TypeError ''node.parent is null'')"
  by (simp add: is_method_def paragraph_orphan_def no_fields_def lower_simps
      render_def render_loop_def step_paragraph paragraph_node_def)

theorem paragraph_tight_or_tagged_witness:
  "is_method ''paragraph'' paragraph_tight \<and> parent paragraph_tight = Some item_tight \<and>
   parent item_tight = Some list_tight \<and> type (props list_tight) = ''List'' \<and>
   listTight (props list_tight) \<and>
   render plain [(paragraph_tight, True), (text_hi, True), (paragraph_tight, False)] = Inr ''hi'' \<and>
   is_method ''paragraph'' paragraph_top \<and> parent paragraph_top = Some document_n \<and>
   \<not> (\<exists>g. parent document_n = Some g \<and> type (props g) = ''List'' \<and> listTight (props g)) \<and>
   step (paragraph_top, True) (plain\<lparr>buffer := ''<hr />'', lastOut := ''<hr />''\<rparr>) =
     Inr (plain\<lparr>buffer := ''<hr />\<newline><p>'', lastOut := ''<p>'', entering := True\<rparr>) \<and>
   step (paragraph_top, False) (plain\<lparr>buffer := ''<p>hi'', lastOut := ''hi''\<rparr>) =
     Inr (plain\<lparr>buffer := ''<p>hi</p>\<newline>'', lastOut := ''\<newline>''\<rparr>)"
proof -
  have a1: "is_method ''paragraph'' paragraph_tight \<and> parent paragraph_tight = Some item_tight"
    by (simp add: is_method_def paragraph_tight_def no_fields_def lower_simps)
  have b1: "parent item_tight = Some list_tight \<and> type (props list_tight) = ''List'' \<and>
      listTight (props list_tight)"
    by (simp add: item_tight_def list_tight_def no_fields_def)
  have a2: "is_method ''paragraph'' paragraph_top \<and> parent paragraph_top = Some document_n"
    by (simp add: is_method_def paragraph_top_def no_fields_def lower_simps)
  have b2: "\<not> (\<exists>g. parent document_n = Some g \<and> type (props g) = ''List'' \<and>
      listTight (props g))"
    by (simp add: document_n_def)
  have hi: "render plain [(text_hi, True)] = Inr ''hi''"
    by (simp add: render_def render_loop_def step_def Let_def text_hi_def no_fields_def
        lower_simps member_truthy_def handlers_def call_def text_node_def out_def plain_def
        new_HtmlRenderer_def escapeXml_def)
  note t1 = paragraph_tight_or_tagged [of paragraph_tight item_tight list_tight _ plain
      "[(text_hi, True)]", THEN mp, OF a1, THEN conjunct1, THEN mp, OF b1, THEN conjunct2]
  have r1: "render plain [(paragraph_tight, True), (text_hi, True), (paragraph_tight, False)] =
      Inr ''hi''"
    using t1 hi by simp
  note t2 = paragraph_tight_or_tagged [of paragraph_top document_n _ _ _ _,
      THEN mp, OF a2, THEN conjunct2, THEN mp, OF b2]
  have r2: "step (paragraph_top, True) (plain\<lparr>buffer := ''<hr />'', lastOut := ''<hr />''\<rparr>) =
     Inr (plain\<lparr>buffer := ''<hr />\<newline><p>'', lastOut := ''<p>'', entering := True\<rparr>)"
    unfolding t2 [THEN conjunct1]
    by (simp add: sourcepos_attrs_def plain_def new_HtmlRenderer_def cr_def out_def tag_def)
  have r3: "step (paragraph_top, False) (plain\<lparr>buffer := ''<p>hi'', lastOut := ''hi''\<rparr>) =
     Inr (plain\<lparr>buffer := ''<p>hi</p>\<newline>'', lastOut := ''\<newline>''\<rparr>)"
    unfolding t2 [THEN conjunct2]
    by (simp add: plain_def new_HtmlRenderer_def cr_def out_def tag_def)
  from a1 b1 a2 b2 r1 r2 r3 show ?thesis by blast
qed

subsection \<open>Output while tags are disabled\<close>

text \<open>
  Claim C2, as amended: in every state with \<^verbatim>\<open>disableTags > 0\<close>, after \<^verbatim>\<open>out(s)\<close>
  \<^verbatim>\<open>lastOut\<close> is the text \<open>s\<close> as it was passed, also when what was appended is
  shorter; and for a text with at most one match of the tag pattern, \<^verbatim>\<open>out(s)\<close> appends
  \<open>s\<close> with every match removed.
\<close>

theorem out_suppressed:
  "0 < disableTags this \<longrightarrow>
     lastOut (out s this) = s \<and>
     (at_most_one_tag s \<longrightarrow> buffer (out s this) = buffer this @ strip_all_tags_spec s)"
proof (intro impI conjI)
  show "lastOut (out s this) = s" by simp
next
  assume d: "0 < disableTags this" and one: "at_most_one_tag s"
  have "replace_reHtmlTag s = strip_all_tags_spec s"
  proof (cases "reHtmlTag_exec s")
    case None
    then show ?thesis
      by (simp add: replace_reHtmlTag_def strip_all_tags_spec.simps [of s])
  next
    case (Some ba)
    obtain before after where ba: "ba = (before, after)" by (cases ba)
    with Some one have "reHtmlTag_exec after = None"
      by (simp add: at_most_one_tag_def)
    then have "strip_all_tags_spec after = after"
      by (simp add: strip_all_tags_spec.simps [of after])
    with Some ba show ?thesis
      by (simp add: replace_reHtmlTag_def strip_all_tags_spec.simps [of s])
  qed
  with d show "buffer (out s this) = buffer this @ strip_all_tags_spec s"
    by (simp add: buffer_out)
qed

lemma exec_code_x: "reHtmlTag_exec ''<code>x</code>'' = Some ([], ''x</code>'')"
  by (simp add: reHtmlTag_exec_def)
lemma exec_x_code: "reHtmlTag_exec ''x</code>'' = Some (''x'', [])"
  by (simp add: reHtmlTag_exec_def)
lemma exec_empty: "reHtmlTag_exec [] = None"
  by (simp add: reHtmlTag_exec_def)
lemma exec_em: "reHtmlTag_exec ''<em>'' = Some ([], [])"
  by (simp add: reHtmlTag_exec_def)

text \<open>
  Claim C2 as stated fails on the text that the handler \<^verbatim>\<open>code\<close> emits in one call:
  only the leftmost tag is removed, and \<^verbatim>\<open>lastOut\<close> is the text with both tags.
\<close>

theorem out_suppressed_counterexample:
  "0 < disableTags (plain\<lparr>disableTags := 1\<rparr>) \<and>
   strip_all_tags_spec ''<code>x</code>'' = ''x'' \<and>
   buffer (out ''<code>x</code>'' (plain\<lparr>disableTags := 1\<rparr>)) = ''x</code>'' \<and>
   lastOut (out ''<code>x</code>'' (plain\<lparr>disableTags := 1\<rparr>)) = ''<code>x</code>''"
proof -
  have "strip_all_tags_spec ''<code>x</code>'' = ''x''"
    by (simp add: strip_all_tags_spec.simps [of "''<code>x</code>''"]
        strip_all_tags_spec.simps [of "''x</code>''"] strip_all_tags_spec.simps [of "[]"]
        exec_code_x exec_x_code exec_empty)
  then show ?thesis
    by (simp add: buffer_out replace_reHtmlTag_def exec_code_x plain_def new_HtmlRenderer_def)
qed

theorem out_suppressed_witness:
  "0 < disableTags (plain\<lparr>disableTags := 1\<rparr>) \<and> at_most_one_tag ''<em>'' \<and>
   lastOut (out ''<em>'' (plain\<lparr>disableTags := 1\<rparr>)) = ''<em>'' \<and>
   buffer (out ''<em>'' (plain\<lparr>disableTags := 1\<rparr>)) = []"
proof -
  have d: "0 < disableTags (plain\<lparr>disableTags := 1\<rparr>)" by simp
  have one: "at_most_one_tag ''<em>''"
    by (simp add: at_most_one_tag_def exec_em exec_empty)
  note t = out_suppressed [of "plain\<lparr>disableTags := 1\<rparr>" "''<em>''", THEN mp, OF d]
  have s: "strip_all_tags_spec ''<em>'' = []"
    by (simp add: strip_all_tags_spec.simps [of "''<em>''"] strip_all_tags_spec.simps [of "[]"]
        exec_em exec_empty)
  have "buffer (out ''<em>'' (plain\<lparr>disableTags := 1\<rparr>)) = []"
    using t [THEN conjunct2, THEN mp, OF one] s by (simp add: plain_def new_HtmlRenderer_def)
  with d one t [THEN conjunct1] show ?thesis by blast
qed

subsection \<open>Lists\<close>

lemma step_list:
  "is_method ''list'' node \<Longrightarrow>
   step (node, e) this =
     Inr (list_node node (sourcepos_attrs this node) (this\<lparr>entering := e\<rparr>))"
  by (simp add: is_method_def step_def Let_def member_truthy_def handlers_def call_def)

lemma map_of_sourcepos_attrs: "map_of (sourcepos_attrs this node) ''start'' = None"
  apply (simp add: sourcepos_attrs_def)
  apply (cases "sourcepos (props node)")
   apply simp_all
  done

text \<open>
  Claim C4, as amended: the opening tag that the entering event of a list node passes to
  \<^verbatim>\<open>out\<close> has the attribute \<^verbatim>\<open>start\<close>, with the decimal numeral of
  \<^verbatim>\<open>listStart\<close>, if and only if \<^verbatim>\<open>listStart\<close> is not \<^verbatim>\<open>null\<close> and not 1. The
  list type only chooses between \<^verbatim>\<open>ul\<close> and \<^verbatim>\<open>ol\<close>; an ordered list with
  \<^verbatim>\<open>listStart\<close> 1 or \<^verbatim>\<open>null\<close> has no \<^verbatim>\<open>start\<close>.
\<close>

theorem list_start_attribute:
  "is_method ''list'' node \<longrightarrow>
     (\<exists>as. step (node, True) this =
        Inr (cr (out (tag (if listType (props node) = ''Bullet'' then ''ul'' else ''ol'')
                        (Some as) False)
                   (cr (this\<lparr>entering := True\<rparr>)))) \<and>
      as = sourcepos_attrs this node @
           (case listStart (props node) of
              None \<Rightarrow> []
            | Some n \<Rightarrow> if n = 1 then [] else [(''start'', toString n)]) \<and>
      map_of as ''start'' =
           (case listStart (props node) of
              None \<Rightarrow> None
            | Some n \<Rightarrow> if n = 1 then None else Some (toString n)))"
proof
  assume m: "is_method ''list'' node"
  define as where "as = sourcepos_attrs this node @
           (case listStart (props node) of
              None \<Rightarrow> []
            | Some n \<Rightarrow> if n = 1 then [] else [(''start'', toString n)])"
  have sp: "sourcepos_attrs (this\<lparr>entering := True\<rparr>) node = sourcepos_attrs this node"
    by (simp add: sourcepos_attrs_def)
  have "step (node, True) this =
        Inr (cr (out (tag (if listType (props node) = ''Bullet'' then ''ul'' else ''ol'')
                        (Some as) False)
                   (cr (this\<lparr>entering := True\<rparr>))))"
    using m by (simp add: step_list list_node_def Let_def as_def split: option.splits)
  moreover have "map_of as ''start'' =
           (case listStart (props node) of
              None \<Rightarrow> None
            | Some n \<Rightarrow> if n = 1 then None else Some (toString n))"
    by (simp add: as_def map_add_def map_of_sourcepos_attrs split: option.splits)
  ultimately show "\<exists>as. step (node, True) this =
        Inr (cr (out (tag (if listType (props node) = ''Bullet'' then ''ul'' else ''ol'')
                        (Some as) False)
                   (cr (this\<lparr>entering := True\<rparr>)))) \<and>
      as = sourcepos_attrs this node @
           (case listStart (props node) of
              None \<Rightarrow> []
            | Some n \<Rightarrow> if n = 1 then [] else [(''start'', toString n)]) \<and>
      map_of as ''start'' =
           (case listStart (props node) of
              None \<Rightarrow> None
            | Some n \<Rightarrow> if n = 1 then None else Some (toString n))"
    using as_def by blast
qed

lemma lower_list: "toLowerCase ''List'' = ''list''"
  by (simp add: toLowerCase_def toLowerChar_def upperCaseLetters_def
      lowerCaseLetters_def)

lemma bitlen_5: "bitlen 5 = 3"
  by (simp add: bitlen.simps [of 5] bitlen.simps [of 2] bitlen.simps [of "Suc 0"]
      bitlen.simps [of 0])

lemma toString_5: "toString 5 = ''5''"
  by (simp add: toString_def toNumber_def Number_toString_def shortest_def bitlen_5
      decimal.simps [of 5] Let_def)

text \<open>
  Claim C4 as stated fails: a bullet list whose node has \<^verbatim>\<open>listStart\<close> 5 gets the
  attribute.
\<close>

theorem list_start_attribute_counterexample:
  \<open>is_method ''list'' list_bullet_5 \<and> listType (props list_bullet_5) = ''Bullet'' \<and>
   render plain [(list_bullet_5, True)] = Inr ''<ul start="5">\<newline>''\<close>
  by (simp add: is_method_def list_bullet_5_def no_fields_def lower_list render_def
      render_loop_def step_def Let_def member_truthy_def handlers_def call_def list_node_def
      sourcepos_attrs_def plain_def new_HtmlRenderer_def cr_def out_def tag_def toString_5)

theorem list_start_attribute_witness:
  \<open>is_method ''list'' list_ordered_5 \<and> is_method ''list'' list_ordered_1 \<and>
   render plain [(list_ordered_5, True)] = Inr ''<ol start="5">\<newline>'' \<and>
   render plain [(list_ordered_1, True)] = Inr ''<ol>\<newline>''\<close>
proof -
  have m5: "is_method ''list'' list_ordered_5" and m1: "is_method ''list'' list_ordered_1"
    by (simp_all add: is_method_def list_ordered_5_def list_ordered_1_def no_fields_def
        lower_list)
  define s0 where
    "s0 = plain\<lparr>buffer := [], lastOut := ''\<newline>'', disableTags := 0, entering := False\<rparr>"
  from list_start_attribute [of list_ordered_5 s0, THEN mp, OF m5]
  have \<open>step (list_ordered_5, True) s0 =
      Inr (cr (out ''<ol start="5">'' (cr (s0\<lparr>entering := True\<rparr>))))\<close>
    by (auto simp add: list_ordered_5_def no_fields_def sourcepos_attrs_def s0_def plain_def
        new_HtmlRenderer_def tag_def toString_5)
  then have r5: \<open>render plain [(list_ordered_5, True)] = Inr ''<ol start="5">\<newline>''\<close>
    by (simp add: render_def render_loop_def s0_def [symmetric])
      (simp add: s0_def cr_def out_def)
  from list_start_attribute [of list_ordered_1 s0, THEN mp, OF m1]
  have \<open>step (list_ordered_1, True) s0 =
      Inr (cr (out ''<ol>'' (cr (s0\<lparr>entering := True\<rparr>))))\<close>
    by (auto simp add: list_ordered_1_def no_fields_def sourcepos_attrs_def s0_def plain_def
        new_HtmlRenderer_def tag_def)
  then have r1: \<open>render plain [(list_ordered_1, True)] = Inr ''<ol>\<newline>''\<close>
    by (simp add: render_def render_loop_def s0_def [symmetric])
      (simp add: s0_def cr_def out_def)
  from m5 m1 r5 r1 show ?thesis by blast
qed

subsection \<open>Images and the counter of disabled tags\<close>

lemma disableTags_handlers [simp]:
  "disableTags (document this) = disableTags this"
  "disableTags (text_node node this) = disableTags this"
  "disableTags (softbreak this) = disableTags this"
  "disableTags (hardbreak this) = disableTags this"
  "disableTags (emph this) = disableTags this"
  "disableTags (strong this) = disableTags this"
  "disableTags (html node this) = disableTags this"
  "disableTags (link node attrs this) = disableTags this"
  "disableTags (code node this) = disableTags this"
  "disableTags (codeblock node attrs this) = disableTags this"
  "disableTags (blockquote this) = disableTags this"
  "disableTags (item this) = disableTags this"
  "disableTags (list_node node attrs this) = disableTags this"
  "disableTags (header node attrs this) = disableTags this"
  "disableTags (htmlblock node this) = disableTags this"
  "disableTags (horizontalrule attrs this) = disableTags this"
  by (simp_all add: document_def text_node_def softbreak_def hardbreak_def emph_def strong_def
      html_def link_def code_def codeblock_def blockquote_def item_def list_node_def
      header_def htmlblock_def horizontalrule_def Let_def split: option.splits)

lemma disableTags_paragraph:
  "paragraph_node node attrs this = Inr this' \<Longrightarrow> disableTags this' = disableTags this"
  by (auto simp add: paragraph_node_def Let_def split: option.splits if_splits)

lemma disableTags_call:
  "m \<noteq> ''image'' \<Longrightarrow> call m node attrs this = Inr this' \<Longrightarrow>
   disableTags this' = disableTags this"
  unfolding call_def
  by (auto split: if_splits dest: disableTags_paragraph)

lemma disableTags_step_other:
  "\<not> is_method ''image'' node \<Longrightarrow> step (node, e) this = Inr this' \<Longrightarrow>
   disableTags this' = disableTags this"
  by (auto simp add: step_def Let_def is_method_def split: if_splits dest: disableTags_call)

lemma disableTags_image:
  "disableTags (image_node node this) =
     (if entering this then disableTags this + 1 else disableTags this - 1)"
  by (simp add: image_node_def Let_def)

lemma balanced_run:
  "balanced d events \<Longrightarrow> run events this = Inr this' \<Longrightarrow>
   disableTags this' = disableTags this - int d"
proof (induction events arbitrary: d this)
  case Nil
  then show ?case by simp
next
  case (Cons ev events)
  obtain node e where ev: "ev = (node, e)" by (cases ev)
  from Cons.prems obtain this1 where
    s: "step (node, e) this = Inr this1" and r: "run events this1 = Inr this'"
    by (auto simp add: ev split: sum.splits)
  show ?case
  proof (cases "is_method ''image'' node")
    case False
    with Cons.prems have "balanced d events" by (simp add: ev)
    from Cons.IH [OF this r] disableTags_step_other [OF False s] show ?thesis by simp
  next
    case True
    with s have d1: "disableTags this1 = (if e then disableTags this + 1 else disableTags this - 1)"
      by (auto simp add: step_image disableTags_image)
    show ?thesis
    proof (cases e)
      case True
      with \<open>is_method ''image'' node\<close> Cons.prems have "balanced (Suc d) events"
        by (simp add: ev)
      from Cons.IH [OF this r] d1 True show ?thesis by simp
    next
      case False
      with \<open>is_method ''image'' node\<close> Cons.prems obtain d' where
        "d = Suc d'" "balanced d' events"
        by (auto simp add: ev split: nat.splits)
      with Cons.IH [OF this(2) r] d1 False show ?thesis by simp
    qed
  qed
qed

lemma balanced_prefix:
  "balanced d events \<Longrightarrow> run (take k events) this = Inr this' \<Longrightarrow>
   disableTags this - int d \<le> disableTags this'"
proof (induction events arbitrary: d this k)
  case Nil
  then show ?case by simp
next
  case (Cons ev events)
  obtain node e where ev: "ev = (node, e)" by (cases ev)
  show ?case
  proof (cases k)
    case 0
    with Cons.prems show ?thesis by simp
  next
    case (Suc k')
    with Cons.prems obtain this1 where
      s: "step (node, e) this = Inr this1" and r: "run (take k' events) this1 = Inr this'"
      by (auto simp add: ev split: sum.splits)
    show ?thesis
    proof (cases "is_method ''image'' node")
      case False
      with Cons.prems have "balanced d events" by (simp add: ev)
      from Cons.IH [OF this r] disableTags_step_other [OF False s] show ?thesis by simp
    next
      case True
      with s have d1:
        "disableTags this1 = (if e then disableTags this + 1 else disableTags this - 1)"
        by (auto simp add: step_image disableTags_image)
      show ?thesis
      proof (cases e)
        case True
        with \<open>is_method ''image'' node\<close> Cons.prems have "balanced (Suc d) events"
          by (simp add: ev)
        from Cons.IH [OF this r] d1 True show ?thesis by simp
      next
        case False
        with \<open>is_method ''image'' node\<close> Cons.prems obtain d' where
          "d = Suc d'" "balanced d' events"
          by (auto simp add: ev split: nat.splits)
        with Cons.IH [OF this(2) r] d1 False show ?thesis by simp
      qed
    qed
  qed
qed

lemma balanced_append:
  "balanced d xs \<Longrightarrow> balanced (d + c) (xs @ ys) = balanced c ys"
proof (induction xs arbitrary: d)
  case Nil
  then show ?case by simp
next
  case (Cons ev xs)
  obtain node e where ev: "ev = (node, e)" by (cases ev)
  show ?case
  proof (cases "is_method ''image'' node")
    case False
    with Cons.prems have "balanced d xs" by (simp add: ev)
    from Cons.IH [OF this] False show ?thesis by (simp add: ev)
  next
    case True
    show ?thesis
    proof (cases e)
      case True
      with \<open>is_method ''image'' node\<close> Cons.prems have "balanced (Suc d) xs"
        by (simp add: ev)
      from Cons.IH [OF this] True \<open>is_method ''image'' node\<close> show ?thesis
        by (simp add: ev)
    next
      case False
      with \<open>is_method ''image'' node\<close> Cons.prems obtain d' where
        d: "d = Suc d'" and b: "balanced d' xs"
        by (auto simp add: ev split: nat.splits)
      from Cons.IH [OF b] False \<open>is_method ''image'' node\<close> d show ?thesis
        by (simp add: ev)
    qed
  qed
qed

lemma balanced_wrap:
  assumes "is_method ''image'' a" "is_method ''image'' b" "balanced 0 inner"
  shows "balanced 0 ((a, True) # inner @ [(b, False)])"
proof -
  have "balanced (0 + 1) (inner @ [(b, False)]) = balanced 1 [(b, False)]"
    using assms(3) by (rule balanced_append)
  with assms show ?thesis by simp
qed

lemma image_enter_nested:
  "0 < disableTags this \<Longrightarrow> entering this \<Longrightarrow>
   image_node node this = this\<lparr>disableTags := disableTags this + 1\<rparr>"
  by (simp add: image_node_def Let_def)

lemma image_exit_nested:
  "disableTags this \<noteq> 1 \<Longrightarrow> \<not> entering this \<Longrightarrow>
   image_node node this = this\<lparr>disableTags := disableTags this - 1\<rparr>"
  by (simp add: image_node_def Let_def)

lemma nested_images:
  assumes "is_method ''image'' outer" "is_method ''image'' inner"
  shows \<open>\<exists>this'. render_loop this [(outer, True), (inner, True), (inner, False), (outer, False)] =
           Inr this' \<and> disableTags this' = 0 \<and>
         buffer this' =
           (if safe (options this) \<and> potentiallyUnsafe (destination (props outer))
            then ''<img src="" alt="''
            else ''<img src="'' @ escape this (destination (props outer)) True @ ''" alt="'') @
           (if title (props outer) \<noteq> []
            then ''" title="'' @ escape this (title (props outer)) True else []) @
           ''" />''\<close>
proof -
  define s0 where
    "s0 = this\<lparr>buffer := [], lastOut := ''\<newline>'', disableTags := 0, entering := False\<rparr>"
  define s1 where "s1 = image_node outer (s0\<lparr>entering := True\<rparr>)"
  define s2 where "s2 = image_node inner (s1\<lparr>entering := True\<rparr>)"
  define s3 where "s3 = image_node inner (s2\<lparr>entering := False\<rparr>)"
  define s4 where "s4 = image_node outer (s3\<lparr>entering := False\<rparr>)"
  have r: "render_loop this [(outer, True), (inner, True), (inner, False), (outer, False)] =
      Inr s4"
    using assms by (simp add: render_loop_def step_image s0_def s1_def s2_def s3_def s4_def)
  have b1: \<open>buffer s1 =
      (if safe (options this) \<and> potentiallyUnsafe (destination (props outer))
       then ''<img src="" alt="''
       else ''<img src="'' @ escape this (destination (props outer)) True @ ''" alt="'')\<close>
    and d1: "disableTags s1 = 1" and o1: "options s1 = options this" "escape s1 = escape this"
    by (simp_all add: s1_def s0_def image_enter0 buffer_out)
  have e2: "s2 = s1\<lparr>entering := True, disableTags := 2\<rparr>"
    using d1 by (simp add: s2_def image_enter_nested)
  have e3: "s3 = s1\<lparr>entering := False, disableTags := 1\<rparr>"
    by (simp add: s3_def e2 image_exit_nested)
  have x: \<open>buffer s4 = buffer s1 @
      (if title (props outer) \<noteq> []
       then ''" title="'' @ escape this (title (props outer)) True else []) @ ''" />'' \<and>
     disableTags s4 = 0\<close>
    using image_exit1 [of "s3\<lparr>entering := False\<rparr>" outer] o1
    by (simp add: s4_def e3)
  from r x b1 show ?thesis by simp
qed

lemma run_images_total:
  "list_all (\<lambda>ev. is_method ''image'' (fst ev)) events \<Longrightarrow> \<exists>fin. run events this = Inr fin"
proof (induction events arbitrary: this)
  case Nil
  then show ?case by simp
next
  case (Cons ev events)
  obtain node e where ev: "ev = (node, e)" by (cases ev)
  with Cons.prems have "is_method ''image'' node"
    and "list_all (\<lambda>ev. is_method ''image'' (fst ev)) events"
    by simp_all
  with Cons.IH [of "image_node node (this\<lparr>entering := e\<rparr>)"] show ?case
    by (simp add: ev step_image)
qed

lemma list_all_take: "list_all P xs \<Longrightarrow> list_all P (take k xs)"
  by (induction xs arbitrary: k) (auto simp add: take_Cons split: nat.splits)

lemma images_only:
  assumes "list_all (\<lambda>ev. is_method ''image'' (fst ev)) events" "balanced 0 events"
  shows "(\<exists>fin. run events this = Inr fin \<and> disableTags fin = disableTags this) \<and>
    (\<exists>mid. run (take k events) this = Inr mid \<and> disableTags this \<le> disableTags mid)"
proof
  from run_images_total [OF assms(1)] obtain fin where "run events this = Inr fin" by blast
  with balanced_run [OF assms(2) this] 
  show "\<exists>fin. run events this = Inr fin \<and> disableTags fin = disableTags this" by simp
next
  from run_images_total [OF list_all_take [OF assms(1)]] obtain mid where
    "run (take k events) this = Inr mid" by blast
  with balanced_prefix [OF assms(2) this]
  show "\<exists>mid. run (take k events) this = Inr mid \<and> disableTags this \<le> disableTags mid"
    by simp
qed

text \<open>
  Claim C5: the entering event of an image node adds exactly 1 to \<^verbatim>\<open>disableTags\<close>
  and its leaving event subtracts exactly 1, and no other handler changes it. Over a
  balanced sequence of events the counter ends at the value it started from (so it does
  after the leaving event that matches an entering one), and after every prefix of the
  sequence it is not below that value: in a render, which starts from 0, it is never
  negative. A sequence of image events alone is always processed to its end. For two nested images the render ends with the counter at 0 and the buffer
  holds the one \<^verbatim>\<open>img\<close> tag of the outer image, with nothing of the inner image
  in it.
\<close>

theorem image_suppression_depth:
  \<open>(is_method ''image'' node \<longrightarrow>
      (\<exists>this'. step (node, True) this = Inr this' \<and> disableTags this' = disableTags this + 1) \<and>
      (\<exists>this'. step (node, False) this = Inr this' \<and> disableTags this' = disableTags this - 1)) \<and>
   (balanced 0 events \<and> run events this = Inr fin \<longrightarrow> disableTags fin = disableTags this) \<and>
   (is_method ''image'' a \<and> is_method ''image'' b \<and> balanced 0 inner \<and>
    run ((a, True) # inner @ [(b, False)]) this = Inr fin_pair \<longrightarrow>
      disableTags fin_pair = disableTags this) \<and>
   (balanced 0 events \<and> run (take k events) this = Inr mid \<longrightarrow>
      disableTags this \<le> disableTags mid) \<and>
   (balanced 0 events \<and> render_loop this (take k events) = Inr mid_r \<longrightarrow>
      0 \<le> disableTags mid_r) \<and>
   (list_all (\<lambda>ev. is_method ''image'' (fst ev)) events \<and> balanced 0 events \<longrightarrow>
      (\<exists>fin. run events this = Inr fin \<and> disableTags fin = disableTags this) \<and>
      (\<exists>mid. run (take k events) this = Inr mid \<and> disableTags this \<le> disableTags mid)) \<and>
   (is_method ''image'' outer \<and> is_method ''image'' nested \<longrightarrow>
      (\<exists>this'. render_loop this
                 [(outer, True), (nested, True), (nested, False), (outer, False)] = Inr this' \<and>
         disableTags this' = 0 \<and>
         buffer this' =
           (if safe (options this) \<and> potentiallyUnsafe (destination (props outer))
            then ''<img src="" alt="''
            else ''<img src="'' @ escape this (destination (props outer)) True @ ''" alt="'') @
           (if title (props outer) \<noteq> []
            then ''" title="'' @ escape this (title (props outer)) True else []) @
           ''" />''))\<close>
proof (intro conjI impI)
  assume "is_method ''image'' node"
  then show "\<exists>this'. step (node, True) this = Inr this' \<and>
      disableTags this' = disableTags this + 1"
    by (simp add: step_image disableTags_image)
next
  assume "is_method ''image'' node"
  then show "\<exists>this'. step (node, False) this = Inr this' \<and>
      disableTags this' = disableTags this - 1"
    by (simp add: step_image disableTags_image)
next
  assume "balanced 0 events \<and> run events this = Inr fin"
  then show "disableTags fin = disableTags this"
    using balanced_run [of 0 events this fin] by simp
next
  assume h: "is_method ''image'' a \<and> is_method ''image'' b \<and> balanced 0 inner \<and>
    run ((a, True) # inner @ [(b, False)]) this = Inr fin_pair"
  then have "balanced 0 ((a, True) # inner @ [(b, False)])"
    by (intro balanced_wrap) blast+
  from balanced_run [OF this] h show "disableTags fin_pair = disableTags this"
    by simp
next
  assume "balanced 0 events \<and> run (take k events) this = Inr mid"
  then show "disableTags this \<le> disableTags mid"
    using balanced_prefix [of 0 events k this mid] by simp
next
  assume h: "balanced 0 events \<and> render_loop this (take k events) = Inr mid_r"
  define s0 where
    "s0 = this\<lparr>buffer := [], lastOut := ''\<newline>'', disableTags := 0, entering := False\<rparr>"
  from h have "run (take k events) s0 = Inr mid_r"
    by (simp add: render_loop_def s0_def)
  from balanced_prefix [of 0 events k s0 mid_r, OF _ this] h
  show "0 \<le> disableTags mid_r"
    by (simp add: s0_def)
next
  assume "list_all (\<lambda>ev. is_method ''image'' (fst ev)) events \<and> balanced 0 events"
  then show "\<exists>fin. run events this = Inr fin \<and> disableTags fin = disableTags this"
    using images_only [of events this k] by blast
next
  assume "list_all (\<lambda>ev. is_method ''image'' (fst ev)) events \<and> balanced 0 events"
  then show "\<exists>mid. run (take k events) this = Inr mid \<and> disableTags this \<le> disableTags mid"
    using images_only [of events this k] by blast
next
  assume "is_method ''image'' outer \<and> is_method ''image'' nested"
  then show \<open>\<exists>this'. render_loop this
                 [(outer, True), (nested, True), (nested, False), (outer, False)] = Inr this' \<and>
         disableTags this' = 0 \<and>
         buffer this' =
           (if safe (options this) \<and> potentiallyUnsafe (destination (props outer))
            then ''<img src="" alt="''
            else ''<img src="'' @ escape this (destination (props outer)) True @ ''" alt="'') @
           (if title (props outer) \<noteq> []
            then ''" title="'' @ escape this (title (props outer)) True else []) @
           ''" />''\<close>
    by (simp add: nested_images)
qed

lemma lower_image: "toLowerCase ''Image'' = ''image''"
  by (simp add: toLowerCase_def toLowerChar_def upperCaseLetters_def
      lowerCaseLetters_def)

theorem image_suppression_depth_witness:
  \<open>is_method ''image'' image_u \<and> is_method ''image'' image_v \<and>
   balanced 0 [(image_u, True), (image_v, True), (image_v, False), (image_u, False)] \<and>
   list_all (\<lambda>ev. is_method ''image'' (fst ev))
     [(image_u, True), (image_v, True), (image_v, False), (image_u, False)] \<and>
   (\<exists>mid. run (take 2 [(image_u, True), (image_v, True), (image_v, False), (image_u, False)])
        plain = Inr mid \<and> disableTags plain \<le> disableTags mid) \<and>
   (\<exists>this'. render_loop plain [(image_u, True), (image_v, True), (image_v, False), (image_u, False)]
        = Inr this' \<and>
      disableTags this' = 0 \<and> buffer this' = ''<img src="u" alt="" />'' \<and>
      disableTags this' =
        disableTags (plain\<lparr>buffer := [], lastOut := ''\<newline>'', disableTags := 0,
                            entering := False\<rparr>))\<close>
proof -
  have m: "is_method ''image'' image_u \<and> is_method ''image'' image_v"
    by (simp add: is_method_def image_u_def image_v_def no_fields_def lower_image)
  then have b: "balanced 0 [(image_u, True), (image_v, True), (image_v, False), (image_u, False)]"
    by simp
  from image_suppression_depth [where outer = image_u and nested = image_v and this = plain,
      THEN conjunct2, THEN conjunct2, THEN conjunct2, THEN conjunct2, THEN conjunct2,
      THEN conjunct2, THEN mp, OF m]
  obtain this' where
    r: "render_loop plain [(image_u, True), (image_v, True), (image_v, False), (image_u, False)]
        = Inr this'" and
    d: "disableTags this' = 0" and
    bf: \<open>buffer this' = ''<img src="u" alt="" />''\<close>
    by (auto simp add: image_u_def no_fields_def plain_def new_HtmlRenderer_def escapeXml_def)
  from r have "run [(image_u, True), (image_v, True), (image_v, False), (image_u, False)]
      (plain\<lparr>buffer := [], lastOut := ''\<newline>'', disableTags := 0, entering := False\<rparr>) =
      Inr this'"
    by (simp only: render_loop_def)
  with b image_suppression_depth [where
      events = "[(image_u, True), (image_v, True), (image_v, False), (image_u, False)]" and
      this = "plain\<lparr>buffer := [], lastOut := ''\<newline>'', disableTags := 0, entering := False\<rparr>"
      and fin = this', THEN conjunct2, THEN conjunct1]
  have "disableTags this' =
      disableTags (plain\<lparr>buffer := [], lastOut := ''\<newline>'', disableTags := 0,
                          entering := False\<rparr>)"
    by blast
  moreover have la: "list_all (\<lambda>ev. is_method ''image'' (fst ev))
     [(image_u, True), (image_v, True), (image_v, False), (image_u, False)]"
    using m by simp
  moreover from image_suppression_depth [where
      events = "[(image_u, True), (image_v, True), (image_v, False), (image_u, False)]" and
      this = plain and k = 2,
      THEN conjunct2, THEN conjunct2, THEN conjunct2, THEN conjunct2, THEN conjunct2,
      THEN conjunct1, THEN mp, OF conjI, OF la b, THEN conjunct2]
  have "\<exists>mid. run (take 2 [(image_u, True), (image_v, True), (image_v, False), (image_u, False)])
        plain = Inr mid \<and> disableTags plain \<le> disableTags mid" .
  ultimately show ?thesis using m b r d bf by blast
qed

end
